theory Spec2Isabelle
  imports Main "HOL-Library.Sublist"
begin

section \<open>JavaScript string primitives\<close>

text \<open>
  A JavaScript string is a sequence of UTF-16 code units. The model has the strings whose
  code units are below U+0100: a string is a list of characters, and the character
  \<open>CHR n\<close> stands for the code unit \<open>n\<close> (so \<open>CHR 0xA0\<close> is the no-break space). Texts
  with other code units are outside the model. The operations below are the methods of
  \<^verbatim>\<open>String.prototype\<close> that the resolver and the package map call.
\<close>

definition startsWith :: "string \<Rightarrow> string \<Rightarrow> bool" where
  "startsWith s p = (take (length p) s = p)"

definition endsWith :: "string \<Rightarrow> string \<Rightarrow> bool" where
  "endsWith s p = (length p \<le> length s \<and> drop (length s - length p) s = p)"

fun js_includes :: "string \<Rightarrow> string \<Rightarrow> bool" where
  "js_includes [] p = (p = [])"
| "js_includes (c # cs) p = (startsWith (c # cs) p \<or> js_includes cs p)"

definition substring :: "string \<Rightarrow> nat \<Rightarrow> string" where
  "substring s n = drop n s"

fun js_split :: "char \<Rightarrow> string \<Rightarrow> string list" where
  "js_split sep [] = [[]]"
| "js_split sep (c # cs) =
     (if c = sep then [] # js_split sep cs
      else (case js_split sep cs of [] \<Rightarrow> [[c]] | w # ws \<Rightarrow> (c # w) # ws))"

text \<open>
  \<^verbatim>\<open>String.prototype.trim\<close> strips the code units of the ECMAScript classes WhiteSpace
  (U+0009, U+000B, U+000C, U+FEFF and the Unicode category Zs: U+0020, U+00A0, U+1680,
  U+2000 to U+200A, U+202F, U+205F, U+3000) and LineTerminator (U+000A, U+000D, U+2028,
  U+2029). Those below U+0100 are tab, line feed, vertical tab, form feed, carriage
  return, space and no-break space.
\<close>

definition isWhiteSpace :: "char \<Rightarrow> bool" where
  "isWhiteSpace c =
     (c \<in> set [CHR 0x09, CHR 0x0A, CHR 0x0B, CHR 0x0C, CHR 0x0D, CHR 0x20, CHR 0xA0])"

definition trim :: "string \<Rightarrow> string" where
  "trim s = rev (dropWhile isWhiteSpace (rev (dropWhile isWhiteSpace s)))"

section \<open>Node's \<^verbatim>\<open>path\<close> module on a POSIX host\<close>

fun resolveDots :: "string list \<Rightarrow> bool \<Rightarrow> string list \<Rightarrow> string list" where
  "resolveDots acc isAbs [] = rev acc"
| "resolveDots acc isAbs (seg # segs) =
     (if seg = [] \<or> seg = ''.'' then resolveDots acc isAbs segs
      else if seg = ''..'' then
        (case acc of
           [] \<Rightarrow> if isAbs then resolveDots [] isAbs segs else resolveDots [''..''] isAbs segs
         | a # as \<Rightarrow> if a = ''..'' then resolveDots (''..'' # a # as) isAbs segs
                    else resolveDots as isAbs segs)
      else resolveDots (seg # acc) isAbs segs)"

fun intercalate :: "string \<Rightarrow> string list \<Rightarrow> string" where
  "intercalate sep [] = []"
| "intercalate sep [x] = x"
| "intercalate sep (x # y # ys) = x @ sep @ intercalate sep (y # ys)"

definition path_normalize :: "string \<Rightarrow> string" where
  "path_normalize p =
     (if p = [] then ''.''
      else
        (let isAbs = (hd p = CHR ''/'');
             trailing = (last p = CHR ''/'');
             body = intercalate ''/'' (resolveDots [] isAbs (js_split CHR ''/'' p))
         in if body = [] then (if isAbs then ''/'' else if trailing then ''./'' else ''.'')
            else (if isAbs then ''/'' else []) @ body @ (if trailing then ''/'' else [])))"

definition path_join :: "string list \<Rightarrow> string" where
  "path_join parts =
     (let ps = filter (\<lambda>p. p \<noteq> []) parts
      in if ps = [] then ''.'' else path_normalize (intercalate ''/'' ps))"

definition path_dirname :: "string \<Rightarrow> string" where
  "path_dirname p =
     (if p = [] then ''.''
      else
        (let hasRoot = (hd p = CHR ''/'');
             afterBase = dropWhile (\<lambda>c. c \<noteq> CHR ''/'')
                           (dropWhile (\<lambda>c. c = CHR ''/'') (rev (tl p)));
             end = length afterBase
         in if afterBase = [] then (if hasRoot then ''/'' else ''.'')
            else if hasRoot \<and> end = 1 then ''//''
            else take end p))"

definition path_basename :: "string \<Rightarrow> string" where
  "path_basename p =
     rev (takeWhile (\<lambda>c. c \<noteq> CHR ''/'') (dropWhile (\<lambda>c. c = CHR ''/'') (rev p)))"

fun dropCommon :: "string list \<Rightarrow> string list \<Rightarrow> string list \<times> string list" where
  "dropCommon (a # as) (b # bs) = (if a = b then dropCommon as bs else (a # as, b # bs))"
| "dropCommon as bs = (as, bs)"

text \<open>\<^verbatim>\<open>path.relative\<close> of two absolute paths (the resolver only passes absolute
  paths, so the current working directory plays no role).\<close>

definition path_relative :: "string \<Rightarrow> string \<Rightarrow> string" where
  "path_relative from to =
     (let (f, t) = dropCommon (resolveDots [] True (js_split CHR ''/'' from))
                              (resolveDots [] True (js_split CHR ''/'' to))
      in intercalate ''/'' (map (\<lambda>_. ''..'') f @ t))"


section \<open>Source-name utilities and the remapping parser\<close>

text \<open>
  Modelled from the spec: \<^verbatim>\<open>source-name-utils.ts\<close> is not among the sources.
  Section 4.2 describes \<^verbatim>\<open>join(a, b, ...)\<close> as concatenation with single
  \<^verbatim>\<open>/\<close> separators, collapsing runs. Section 4.4 (steps 3 and 4) joins the
  directory of a source name with a relative import and then asks whether the result
  left the package, so \<^verbatim>\<open>.\<close> and \<^verbatim>\<open>..\<close> segments are resolved, as
  Node's POSIX \<^verbatim>\<open>path.join\<close> does.
\<close>

definition sourceNamePathJoin :: "string list \<Rightarrow> string" where
  "sourceNamePathJoin parts = path_join parts"

text \<open>
  Modelled from the spec: section 4.2, on a host whose separator is \<^verbatim>\<open>/\<close> the
  conversions between file-system paths and source names change nothing.
\<close>

definition fsPathToSourceNamePath :: "string \<Rightarrow> string" where
  "fsPathToSourceNamePath p = p"

definition sourceNamePathToFsPath :: "string \<Rightarrow> string" where
  "sourceNamePathToFsPath p = p"

record Remapping =
  rm_context :: string
  rm_prefix :: string
  rm_target :: string

text \<open>
  Modelled from the spec: \<^verbatim>\<open>remappings.ts\<close> is not among the sources. Section 4.1:
  the grammar is \<^verbatim>\<open>[<context> ':'] <prefix> '=' <target>\<close>; the context is the
  text up to the first \<^verbatim>\<open>:\<close> that occurs strictly before the first \<^verbatim>\<open>=\<close>;
  the prefix is the text between that optional colon and the \<^verbatim>\<open>=\<close>; the target is
  the remainder. The line is rejected if \<^verbatim>\<open>=\<close> is absent, or the prefix or the
  target is empty.
\<close>

definition parseRemappingString :: "string \<Rightarrow> Remapping option" where
  "parseRemappingString line =
     (let beforeEq = takeWhile (\<lambda>c. c \<noteq> CHR ''='') line;
          afterEq = dropWhile (\<lambda>c. c \<noteq> CHR ''='') line
      in if afterEq = [] then None
         else
           (let target = tl afterEq;
                hasColon = (CHR '':'' \<in> set beforeEq);
                ctx = (if hasColon then takeWhile (\<lambda>c. c \<noteq> CHR '':'') beforeEq else []);
                pre = (if hasColon then tl (dropWhile (\<lambda>c. c \<noteq> CHR '':'') beforeEq)
                       else beforeEq)
            in if pre = [] \<or> target = [] then None
               else Some \<lparr>rm_context = ctx, rm_prefix = pre, rm_target = target\<rparr>))"

section \<open>Parsing npm module names\<close>

text \<open>
  \<^verbatim>\<open>parseNpmDirectImport\<close> matches the regular expression
  \<^verbatim>\<open>^(?<package>(?:@[a-z0-9-~._]+\/)?[a-z0-9-~][a-z0-9-~._]*)\/(?<path>.*)$\<close>.
  No character of either class is a slash, and \<^verbatim>\<open>@\<close> is in neither class, so
  the match is deterministic: a scope is read iff the string starts with \<^verbatim>\<open>@\<close>,
  and every run is maximal. The dot of the path group matches no line terminator
  (U+000A, U+000D, U+2028, U+2029); the ones below U+0100 are line feed and carriage
  return.
\<close>

definition isNameStartChar :: "char \<Rightarrow> bool" where
  "isNameStartChar c = (c \<in> set ''abcdefghijklmnopqrstuvwxyz0123456789-~'')"

definition isNameChar :: "char \<Rightarrow> bool" where
  "isNameChar c = (c \<in> set ''abcdefghijklmnopqrstuvwxyz0123456789-~._'')"

definition isLineTerminator :: "char \<Rightarrow> bool" where
  "isLineTerminator c = (c = CHR 0x0A \<or> c = CHR 0x0D)"

record NpmDirectImport =
  ndi_package :: string
  ndi_subpath :: string

definition matchNameAndPath :: "string \<Rightarrow> (string \<times> string) option" where
  "matchNameAndPath s =
     (case s of
        [] \<Rightarrow> None
      | c # cs \<Rightarrow>
          if isNameStartChar c then
            (case dropWhile isNameChar cs of
               [] \<Rightarrow> None
             | d # rest \<Rightarrow>
                 if d = CHR ''/'' \<and> \<not> list_ex isLineTerminator rest
                 then Some (c # takeWhile isNameChar cs, rest) else None)
          else None)"

definition parseNpmDirectImport :: "string \<Rightarrow> NpmDirectImport option" where
  "parseNpmDirectImport directImport =
     (case directImport of
        [] \<Rightarrow> None
      | c # cs \<Rightarrow>
          if c = CHR ''@'' then
            (let scope = takeWhile isNameChar cs in
               if scope = [] then None
               else
                 (case dropWhile isNameChar cs of
                    [] \<Rightarrow> None
                  | d # rest \<Rightarrow>
                      if d = CHR ''/'' then
                        (case matchNameAndPath rest of
                           None \<Rightarrow> None
                         | Some (nm, pth) \<Rightarrow>
                             Some \<lparr>ndi_package = CHR ''@'' # scope @ CHR ''/'' # nm,
                                   ndi_subpath = pth\<rparr>)
                      else None))
          else
            (case matchNameAndPath directImport of
               None \<Rightarrow> None
             | Some (nm, pth) \<Rightarrow> Some \<lparr>ndi_package = nm, ndi_subpath = pth\<rparr>))"

definition getNpmPackageName :: "string \<Rightarrow> string option" where
  "getNpmPackageName npmModuleOrsuffixOfModule =
     map_option ndi_package (parseNpmDirectImport npmModuleOrsuffixOfModule)"


section \<open>The data model\<close>

text \<open>
  Packages are JavaScript objects that the maps below use as keys, by identity. Every
  object carries the number it received when it was created (\<open>pkg_ident\<close>), so two
  objects with equal fields are still two values; the map keeps the allocation counter.
  The \<^verbatim>\<open>exports\<close> field of a \<^verbatim>\<open>package.json\<close> is kept as an opaque text.
\<close>

type_synonym PackageExports = string

record PackageJson =
  pj_name :: string
  pj_version :: string
  pj_exports :: "PackageExports option"

record ResolvedNpmPackage =
  pkg_ident :: nat
  name :: string
  version :: string
  rootFsPath :: string
  rootSourceName :: string
  exports :: "PackageExports option"

record TargetNpmPackage =
  installationName :: string
  tnp_package :: ResolvedNpmPackage

record ResolvedUserRemapping = Remapping +
  originalFormat :: string
  source :: string
  targetNpmPackage :: "TargetNpmPackage option"

datatype UserRemappingErrorType =
    REMAPPING_WITH_INVALID_SYNTAX
  | REMAPPING_TO_UNINSTALLED_PACKAGE
  | ILLEGAL_REMAPPING_WIHTOUT_SLASH_ENDINGS

text \<open>The string value of each member of the enum (its discriminant).\<close>

fun UserRemappingErrorType_value :: "UserRemappingErrorType \<Rightarrow> string" where
  "UserRemappingErrorType_value REMAPPING_WITH_INVALID_SYNTAX = ''REMAPPING_WITH_INVALID_SYNTAX''"
| "UserRemappingErrorType_value REMAPPING_TO_UNINSTALLED_PACKAGE =
     ''REMAPPING_TO_UNINSTALLED_PACKAGE''"
| "UserRemappingErrorType_value ILLEGAL_REMAPPING_WIHTOUT_SLASH_ENDINGS =
     ''ILLEGAL_REMAPPING_WIHTOUT_SLASH_ENDINGS''"

record UserRemappingError =
  ure_type :: UserRemappingErrorType
  ure_remapping :: string
  ure_source :: string

record Dependency =
  dep_package :: ResolvedNpmPackage
  generatedRemapping :: Remapping

text \<open>What a JavaScript call can throw.\<close>

datatype js_exception =
    HardhatInvariantError string
  | Error string
  | FsError string
  | TypeError string

datatype ('a, 'e) Result = Success 'a | Failure 'e

section \<open>External collaborators\<close>

text \<open>
  The file system, the Solidity analyzer and the package-exports resolver are inputs of
  the model. A read that throws is \<open>None\<close>. \<open>getAllFilesMatching\<close> receives the
  directory, the file predicate and the directory filter, and returns the files in
  discovery order. \<open>formatRemapping\<close> belongs to \<^verbatim>\<open>remappings.ts\<close>, which is
  not among the sources and which the spec does not describe.
\<close>

datatype ExportsOutcome = ExportsThrows | ExportsReturns "string list option"

record Env =
  readJsonFile :: "string \<Rightarrow> PackageJson option"
  readUtf8File :: "string \<Rightarrow> string option"
  getAllFilesMatching :: "string \<Rightarrow> (string \<Rightarrow> bool) \<Rightarrow> (string \<Rightarrow> bool) \<Rightarrow> string list"
  findDependencyPackageJson :: "string \<Rightarrow> string \<Rightarrow> string option"
  exists :: "string \<Rightarrow> bool"
  getFileTrueCase :: "string \<Rightarrow> string \<Rightarrow> string option"
  analyze :: "string \<Rightarrow> string list \<times> string list"
  resolve_exports :: "ResolvedNpmPackage \<Rightarrow> string \<Rightarrow> ExportsOutcome"
  formatRemapping :: "ResolvedUserRemapping \<Rightarrow> string"

section \<open>The remapped npm packages map\<close>

record RemappedNpmPackagesMap =
  hardhatProjectPackage :: ResolvedNpmPackage
  installationMap :: "ResolvedNpmPackage \<rightharpoonup> (string \<rightharpoonup> Dependency)"
  packageByRootSourceName :: "string \<rightharpoonup> ResolvedNpmPackage"
  userRemappingsPerPackage :: "ResolvedNpmPackage \<rightharpoonup> ResolvedUserRemapping list"
  remappingsToResolve :: "ResolvedNpmPackage list"
  nextPackageIdent :: nat

definition HARDHAT_PROJECT_ROOT_SOURCE_NAME :: string where
  "HARDHAT_PROJECT_ROOT_SOURCE_NAME = ''project''"

definition insertNewPackage ::
  "ResolvedNpmPackage \<Rightarrow> RemappedNpmPackagesMap \<Rightarrow> RemappedNpmPackagesMap" where
  "insertNewPackage npmPackage m =
     m\<lparr>installationMap := (installationMap m)(npmPackage \<mapsto> Map.empty),
       packageByRootSourceName :=
         (packageByRootSourceName m)(rootSourceName npmPackage \<mapsto> npmPackage),
       remappingsToResolve := remappingsToResolve m @ [npmPackage]\<rparr>"

definition generateNpmRemapping ::
  "ResolvedNpmPackage \<Rightarrow> string \<Rightarrow> ResolvedNpmPackage \<Rightarrow> Remapping" where
  "generateNpmRemapping from instName to =
     \<lparr>rm_context = rootSourceName from @ ''/'',
      rm_prefix = instName @ ''/'',
      rm_target = rootSourceName to @ ''/''\<rparr>"

definition isPackageJsonFromMonorepo :: "RemappedNpmPackagesMap \<Rightarrow> string \<Rightarrow> bool" where
  "isPackageJsonFromMonorepo m packageJsonFsPath =
     (\<not> js_includes packageJsonFsPath ''node_modules'' \<and>
      \<not> startsWith packageJsonFsPath (rootFsPath (hardhatProjectPackage m) @ ''/''))"

definition npmPackageToRootSourceName :: "string \<Rightarrow> string \<Rightarrow> string" where
  "npmPackageToRootSourceName nm ver = ''npm/'' @ nm @ ''@'' @ ver"

definition updateRemappingsTxFragment ::
  "ResolvedNpmPackage \<Rightarrow> string \<Rightarrow> string \<Rightarrow> string" where
  "updateRemappingsTxFragment from relativeFsPathToRemappingsFileFromPackage remappingFragment =
     (if startsWith remappingFragment ''npm/'' then remappingFragment
      else sourceNamePathJoin
        [rootSourceName from @ ''/'',
         if endsWith relativeFsPathToRemappingsFileFromPackage ''/''
         then relativeFsPathToRemappingsFileFromPackage
         else relativeFsPathToRemappingsFileFromPackage @ ''/'',
         remappingFragment])"

definition mapInvariantMessage :: string where
  "mapInvariantMessage = ''The npm package must be present in the map''"

text \<open>The version, the root source name and the package object that
  \<^verbatim>\<open>#resolveDependencyByInstallationName\<close> computes from a \<^verbatim>\<open>package.json\<close> it found.
  The new object takes the next identity of the map.\<close>

definition dependencyVersionOf :: "RemappedNpmPackagesMap \<Rightarrow> string \<Rightarrow> PackageJson \<Rightarrow> string" where
  "dependencyVersionOf m dependencyPackageJsonPath dependencyPackageJson =
     (if isPackageJsonFromMonorepo m dependencyPackageJsonPath then ''local''
      else pj_version dependencyPackageJson)"

definition dependencyRootSourceName ::
  "RemappedNpmPackagesMap \<Rightarrow> string \<Rightarrow> PackageJson \<Rightarrow> string" where
  "dependencyRootSourceName m dependencyPackageJsonPath dependencyPackageJson =
     (if dependencyPackageJsonPath =
           path_join [rootFsPath (hardhatProjectPackage m), ''package.json'']
      then HARDHAT_PROJECT_ROOT_SOURCE_NAME
      else npmPackageToRootSourceName (pj_name dependencyPackageJson)
             (dependencyVersionOf m dependencyPackageJsonPath dependencyPackageJson))"

definition newDependencyNpmPackage ::
  "RemappedNpmPackagesMap \<Rightarrow> string \<Rightarrow> PackageJson \<Rightarrow> ResolvedNpmPackage" where
  "newDependencyNpmPackage m dependencyPackageJsonPath dependencyPackageJson =
     \<lparr>pkg_ident = nextPackageIdent m,
      name = pj_name dependencyPackageJson,
      version = dependencyVersionOf m dependencyPackageJsonPath dependencyPackageJson,
      rootFsPath = path_dirname dependencyPackageJsonPath,
      rootSourceName =
        dependencyRootSourceName m dependencyPackageJsonPath dependencyPackageJson,
      exports = pj_exports dependencyPackageJson\<rparr>"

definition allocate :: "RemappedNpmPackagesMap \<Rightarrow> RemappedNpmPackagesMap" where
  "allocate m = m\<lparr>nextPackageIdent := Suc (nextPackageIdent m)\<rparr>"

text \<open>\<^verbatim>\<open>npmPackageDependenciesMap.set(installationName, ...)\<close>, where
  \<open>npmPackageDependenciesMap\<close> is the map of the dependencies of \<open>from\<close>.\<close>

definition edgeTo :: "ResolvedNpmPackage \<Rightarrow> string \<Rightarrow> ResolvedNpmPackage \<Rightarrow> Dependency" where
  "edgeTo from instName to =
     \<lparr>dep_package = to, generatedRemapping = generateNpmRemapping from instName to\<rparr>"

definition setDependency ::
  "ResolvedNpmPackage \<Rightarrow> (string \<rightharpoonup> Dependency) \<Rightarrow> string \<Rightarrow> Dependency \<Rightarrow>
     RemappedNpmPackagesMap \<Rightarrow> RemappedNpmPackagesMap" where
  "setDependency from npmPackageDependenciesMap instName dependency m =
     m\<lparr>installationMap := (installationMap m)
         (from \<mapsto> npmPackageDependenciesMap(instName \<mapsto> dependency))\<rparr>"

text \<open>
  \<^verbatim>\<open>#resolveDependencyByInstallationName\<close>. The result is the value returned (or the
  exception thrown) and the map as the call left it.
\<close>

definition resolveDependencyByInstallationName_internal ::
  "Env \<Rightarrow> ResolvedNpmPackage \<Rightarrow> string \<Rightarrow> RemappedNpmPackagesMap \<Rightarrow>
     (js_exception + Dependency option) \<times> RemappedNpmPackagesMap" where
  "resolveDependencyByInstallationName_internal env from instName m =
     (case installationMap m from of
        None \<Rightarrow> (Inl (HardhatInvariantError mapInvariantMessage), m)
      | Some npmPackageDependenciesMap \<Rightarrow>
          (case npmPackageDependenciesMap instName of
             Some existing \<Rightarrow> (Inr (Some existing), m)
           | None \<Rightarrow>
               (case findDependencyPackageJson env (rootFsPath from) instName of
                  None \<Rightarrow> (Inr None, m)
                | Some dependencyPackageJsonPath \<Rightarrow>
                    (case readJsonFile env dependencyPackageJsonPath of
                       None \<Rightarrow> (Inl (FsError dependencyPackageJsonPath), m)
                     | Some dependencyPackageJson \<Rightarrow>
                         (case packageByRootSourceName m
                                 (dependencyRootSourceName m dependencyPackageJsonPath
                                    dependencyPackageJson) of
                            Some existingBySourceName \<Rightarrow>
                              (Inr (Some (edgeTo from instName existingBySourceName)),
                               setDependency from npmPackageDependenciesMap instName
                                 (edgeTo from instName existingBySourceName) m)
                          | None \<Rightarrow>
                              (let created = newDependencyNpmPackage m
                                     dependencyPackageJsonPath dependencyPackageJson
                               in (Inr (Some (edgeTo from instName created)),
                                   setDependency from npmPackageDependenciesMap instName
                                     (edgeTo from instName created)
                                     (insertNewPackage created (allocate m)))))))))"

definition pushUserRemapping ::
  "ResolvedNpmPackage \<Rightarrow> ResolvedUserRemapping list \<Rightarrow> ResolvedUserRemapping \<Rightarrow>
     RemappedNpmPackagesMap \<Rightarrow> RemappedNpmPackagesMap" where
  "pushUserRemapping npmPackage npmPackageRemappings r m =
     m\<lparr>userRemappingsPerPackage :=
         (userRemappingsPerPackage m)(npmPackage \<mapsto> npmPackageRemappings @ [r])\<rparr>"

definition withoutSlashEndings :: "Remapping \<Rightarrow> bool" where
  "withoutSlashEndings remapping =
     ((length (rm_context remapping) > 0 \<and> \<not> endsWith (rm_context remapping) ''/'') \<or>
      \<not> endsWith (rm_prefix remapping) ''/'' \<or>
      \<not> endsWith (rm_target remapping) ''/'')"

text \<open>The objects that \<^verbatim>\<open>#validateAndResolveUserRemapping\<close> builds: the error for a
  line, the resolved remapping of a local line, and the resolved remapping of a line
  whose target is in \<^verbatim>\<open>node_modules\<close>.\<close>

definition userRemappingError ::
  "UserRemappingErrorType \<Rightarrow> string \<Rightarrow> string \<Rightarrow> UserRemappingError" where
  "userRemappingError errorType remappingString sourceOfTheRemapping =
     \<lparr>ure_type = errorType, ure_remapping = remappingString,
      ure_source = sourceOfTheRemapping\<rparr>"

definition relativeFsPathToRemappingsFile :: "ResolvedNpmPackage \<Rightarrow> string \<Rightarrow> string" where
  "relativeFsPathToRemappingsFile npmPackage sourceOfTheRemapping =
     path_relative (rootFsPath npmPackage) (path_dirname sourceOfTheRemapping)"

definition localUserRemapping ::
  "ResolvedNpmPackage \<Rightarrow> string \<Rightarrow> string \<Rightarrow> Remapping \<Rightarrow> ResolvedUserRemapping" where
  "localUserRemapping npmPackage sourceOfTheRemapping remappingString remapping =
     \<lparr>rm_context = updateRemappingsTxFragment npmPackage
                      (relativeFsPathToRemappingsFile npmPackage sourceOfTheRemapping)
                      (rm_context remapping),
      rm_prefix = rm_prefix remapping,
      rm_target = updateRemappingsTxFragment npmPackage
                     (relativeFsPathToRemappingsFile npmPackage sourceOfTheRemapping)
                     (rm_target remapping),
      originalFormat = remappingString,
      source = sourceOfTheRemapping,
      targetNpmPackage = None\<rparr>"

definition npmUserRemapping ::
  "ResolvedNpmPackage \<Rightarrow> string \<Rightarrow> string \<Rightarrow> Remapping \<Rightarrow> string \<Rightarrow> string \<Rightarrow> Dependency \<Rightarrow>
     ResolvedUserRemapping" where
  "npmUserRemapping npmPackage sourceOfTheRemapping remappingString remapping target instName
       dependencyNpmPackage =
     \<lparr>rm_context = updateRemappingsTxFragment npmPackage
                      (relativeFsPathToRemappingsFile npmPackage sourceOfTheRemapping)
                      (rm_context remapping),
      rm_prefix = rm_prefix remapping,
      rm_target = rootSourceName (dep_package dependencyNpmPackage) @
                  substring target (length instName),
      originalFormat = remappingString,
      source = sourceOfTheRemapping,
      targetNpmPackage =
        Some \<lparr>installationName = instName,
              tnp_package = dep_package dependencyNpmPackage\<rparr>\<rparr>"

text \<open>The target of a line without its leading \<^verbatim>\<open>node_modules/\<close>.\<close>

definition strippedTarget :: "Remapping \<Rightarrow> string" where
  "strippedTarget remapping = substring (rm_target remapping) (length ''node_modules/'')"

text \<open>
  \<^verbatim>\<open>#validateAndResolveUserRemapping\<close>: the error reported for the line, if any, and
  the map with the remapping stored and the packages it made the map load.
\<close>

definition validateAndResolveUserRemapping ::
  "Env \<Rightarrow> ResolvedNpmPackage \<Rightarrow> string \<Rightarrow> string \<Rightarrow> RemappedNpmPackagesMap \<Rightarrow>
     (js_exception + UserRemappingError option) \<times> RemappedNpmPackagesMap" where
  "validateAndResolveUserRemapping env npmPackage sourceOfTheRemapping remappingString m =
     (case installationMap m npmPackage of
        None \<Rightarrow> (Inl (HardhatInvariantError mapInvariantMessage), m)
      | Some npmPackageDependenciesMap \<Rightarrow>
     (case userRemappingsPerPackage m npmPackage of
        None \<Rightarrow> (Inl (HardhatInvariantError mapInvariantMessage), m)
      | Some npmPackageRemappings \<Rightarrow>
     (case parseRemappingString remappingString of
        None \<Rightarrow>
          (Inr (Some (userRemappingError REMAPPING_WITH_INVALID_SYNTAX remappingString
                        sourceOfTheRemapping)), m)
      | Some remapping \<Rightarrow>
          if withoutSlashEndings remapping then
            (Inr (Some (userRemappingError ILLEGAL_REMAPPING_WIHTOUT_SLASH_ENDINGS
                          remappingString sourceOfTheRemapping)), m)
          else if \<not> startsWith (rm_target remapping) ''node_modules/'' then
            (Inr None,
             pushUserRemapping npmPackage npmPackageRemappings
               (localUserRemapping npmPackage sourceOfTheRemapping remappingString remapping) m)
          else if rm_prefix remapping = strippedTarget remapping then (Inr None, m)
          else
            (case getNpmPackageName (strippedTarget remapping) of
               None \<Rightarrow>
                 (Inr (Some (userRemappingError REMAPPING_WITH_INVALID_SYNTAX remappingString
                               sourceOfTheRemapping)), m)
             | Some instName \<Rightarrow>
                 (case resolveDependencyByInstallationName_internal
                         env npmPackage instName m of
                    (Inl e, m') \<Rightarrow> (Inl e, m')
                  | (Inr None, m') \<Rightarrow>
                      (Inr (Some (userRemappingError REMAPPING_TO_UNINSTALLED_PACKAGE
                                    remappingString sourceOfTheRemapping)), m')
                  | (Inr (Some dependencyNpmPackage), m') \<Rightarrow>
                      (Inr None,
                       pushUserRemapping npmPackage npmPackageRemappings
                         (npmUserRemapping npmPackage sourceOfTheRemapping remappingString
                            remapping (strippedTarget remapping) instName
                            dependencyNpmPackage) m'))))))"

text \<open>The lines of a \<^verbatim>\<open>remappings.txt\<close> that are remappings.\<close>

definition rawUserRemappings :: "string \<Rightarrow> string list" where
  "rawUserRemappings packageRemappingsTxtContents =
     filter (\<lambda>line. \<not> startsWith line ''#'')
       (filter (\<lambda>line. line \<noteq> [])
          (map trim (js_split (CHR 0x0A) packageRemappingsTxtContents)))"

text \<open>The two loops of \<^verbatim>\<open>#validateAndResolveUserRemappingsOfAnExistingPackage\<close>:
  over the lines of a file, and over the files.\<close>

fun validateLines ::
  "Env \<Rightarrow> ResolvedNpmPackage \<Rightarrow> string \<Rightarrow> string list \<Rightarrow> UserRemappingError list \<Rightarrow>
     RemappedNpmPackagesMap \<Rightarrow>
     (js_exception + UserRemappingError list) \<times> RemappedNpmPackagesMap" where
  "validateLines env npmPackage remappingsTxtFsPath [] errors m = (Inr errors, m)"
| "validateLines env npmPackage remappingsTxtFsPath (userRemapping # rest) errors m =
     (case validateAndResolveUserRemapping env npmPackage remappingsTxtFsPath userRemapping m of
        (Inl e, m') \<Rightarrow> (Inl e, m')
      | (Inr None, m') \<Rightarrow> validateLines env npmPackage remappingsTxtFsPath rest errors m'
      | (Inr (Some error), m') \<Rightarrow>
          validateLines env npmPackage remappingsTxtFsPath rest (errors @ [error]) m')"

fun validateFiles ::
  "Env \<Rightarrow> ResolvedNpmPackage \<Rightarrow> string list \<Rightarrow> UserRemappingError list \<Rightarrow>
     RemappedNpmPackagesMap \<Rightarrow>
     (js_exception + UserRemappingError list) \<times> RemappedNpmPackagesMap" where
  "validateFiles env npmPackage [] errors m = (Inr errors, m)"
| "validateFiles env npmPackage (remappingsTxtFsPath # rest) errors m =
     (case readUtf8File env remappingsTxtFsPath of
        None \<Rightarrow> (Inl (FsError remappingsTxtFsPath), m)
      | Some packageRemappingsTxtContents \<Rightarrow>
          (case validateLines env npmPackage remappingsTxtFsPath
                  (rawUserRemappings packageRemappingsTxtContents) errors m of
             (Inl e, m') \<Rightarrow> (Inl e, m')
           | (Inr errors', m') \<Rightarrow> validateFiles env npmPackage rest errors' m'))"

definition remappingsTxtFiles :: "Env \<Rightarrow> ResolvedNpmPackage \<Rightarrow> string list" where
  "remappingsTxtFiles env npmPackage =
     getAllFilesMatching env (rootFsPath npmPackage)
       (\<lambda>f. path_basename f = ''remappings.txt'')
       (\<lambda>f. \<not> endsWith f ''node_modules'')"

definition validateAndResolveUserRemappingsOfAnExistingPackage ::
  "Env \<Rightarrow> ResolvedNpmPackage \<Rightarrow> RemappedNpmPackagesMap \<Rightarrow>
     (js_exception + UserRemappingError list) \<times> RemappedNpmPackagesMap" where
  "validateAndResolveUserRemappingsOfAnExistingPackage env npmPackage m =
     (case userRemappingsPerPackage m npmPackage of
        None \<Rightarrow> (Inl (HardhatInvariantError mapInvariantMessage), m)
      | Some packageRemappings \<Rightarrow>
          validateFiles env npmPackage (remappingsTxtFiles env npmPackage) [] m)"

text \<open>
  \<^verbatim>\<open>#resolveAnyRemainingRemappings\<close>: the loop runs while the queue is not empty, and
  the packages it processes may add packages to the queue; a run that never ends is
  \<open>None\<close>.
\<close>

definition startRemappings ::
  "ResolvedNpmPackage \<Rightarrow> RemappedNpmPackagesMap \<Rightarrow> RemappedNpmPackagesMap" where
  "startRemappings npmPackage m =
     m\<lparr>userRemappingsPerPackage := (userRemappingsPerPackage m)(npmPackage \<mapsto> [])\<rparr>"

definition shiftQueue :: "RemappedNpmPackagesMap \<Rightarrow> RemappedNpmPackagesMap" where
  "shiftQueue m = m\<lparr>remappingsToResolve := tl (remappingsToResolve m)\<rparr>"

partial_function (option) resolveRemaining ::
  "Env \<Rightarrow> UserRemappingError list \<Rightarrow> RemappedNpmPackagesMap \<Rightarrow>
     ((js_exception + UserRemappingError list) \<times> RemappedNpmPackagesMap) option" where
  "resolveRemaining env errors m =
     (case remappingsToResolve m of
        [] \<Rightarrow> Some (Inr errors, m)
      | npmPackage # queued \<Rightarrow>
          (case validateAndResolveUserRemappingsOfAnExistingPackage env npmPackage
                  (startRemappings npmPackage m) of
             (Inl e, m') \<Rightarrow> Some (Inl e, m')
           | (Inr userRemappingErrors, m') \<Rightarrow>
               resolveRemaining env (errors @ userRemappingErrors) (shiftQueue m')))"

declare resolveRemaining.simps [code]

definition resolveAnyRemainingRemappings ::
  "Env \<Rightarrow> RemappedNpmPackagesMap \<Rightarrow>
     ((js_exception + UserRemappingError list) \<times> RemappedNpmPackagesMap) option" where
  "resolveAnyRemainingRemappings env m = resolveRemaining env [] m"

text \<open>The private constructor: the project package is inserted into an empty map.\<close>

definition newRemappedNpmPackagesMap :: "ResolvedNpmPackage \<Rightarrow> RemappedNpmPackagesMap" where
  "newRemappedNpmPackagesMap projectPackage =
     insertNewPackage projectPackage
       \<lparr>hardhatProjectPackage = projectPackage,
        installationMap = Map.empty,
        packageByRootSourceName = Map.empty,
        userRemappingsPerPackage = Map.empty,
        remappingsToResolve = [],
        nextPackageIdent = Suc (pkg_ident projectPackage)\<rparr>"

definition create ::
  "Env \<Rightarrow> string \<Rightarrow>
     (js_exception + (RemappedNpmPackagesMap, UserRemappingError list) Result) option" where
  "create env projectRootPath =
     (case readJsonFile env (path_join [projectRootPath, ''package.json'']) of
        None \<Rightarrow> Some (Inl (FsError (path_join [projectRootPath, ''package.json''])))
      | Some projectPackageJson \<Rightarrow>
          (let resolvedNpmPackage =
                 \<lparr>pkg_ident = 0,
                  name = pj_name projectPackageJson,
                  version = pj_version projectPackageJson,
                  rootFsPath = projectRootPath,
                  rootSourceName = HARDHAT_PROJECT_ROOT_SOURCE_NAME,
                  exports = pj_exports projectPackageJson\<rparr>
           in (case resolveAnyRemainingRemappings env
                      (newRemappedNpmPackagesMap resolvedNpmPackage) of
                 None \<Rightarrow> None
               | Some (Inl e, m) \<Rightarrow> Some (Inl e)
               | Some (Inr errors, m) \<Rightarrow>
                   if length errors > 0 then Some (Inr (Failure errors))
                   else Some (Inr (Success m)))))"

definition getUserRemappings ::
  "RemappedNpmPackagesMap \<Rightarrow> ResolvedNpmPackage \<Rightarrow> js_exception + ResolvedUserRemapping list" where
  "getUserRemappings m npmPackage =
     (case userRemappingsPerPackage m npmPackage of
        Some packageRemappings \<Rightarrow> Inr packageRemappings
      | None \<Rightarrow>
          (case installationMap m npmPackage of
             None \<Rightarrow> Inl (HardhatInvariantError mapInvariantMessage)
           | Some deps \<Rightarrow>
               Inl (HardhatInvariantError
                 ''The npm package must be present in the map and their user remappings resolved'')))"

text \<open>The public \<^verbatim>\<open>resolveDependencyByInstallationName\<close>: the dependency, if it is
  installed, with the remapping errors of the packages loaded on the way.\<close>

definition resolveDependencyByInstallationName ::
  "Env \<Rightarrow> ResolvedNpmPackage \<Rightarrow> string \<Rightarrow> RemappedNpmPackagesMap \<Rightarrow>
     ((js_exception + (Dependency \<times> UserRemappingError list option) option) \<times>
      RemappedNpmPackagesMap) option" where
  "resolveDependencyByInstallationName env from instName m =
     (case resolveDependencyByInstallationName_internal env from instName m of
        (Inl e, m') \<Rightarrow> Some (Inl e, m')
      | (Inr None, m') \<Rightarrow> Some (Inr None, m')
      | (Inr (Some dependency), m') \<Rightarrow>
          (case resolveAnyRemainingRemappings env m' of
             None \<Rightarrow> None
           | Some (Inl e, m'') \<Rightarrow> Some (Inl e, m'')
           | Some (Inr errors, m'') \<Rightarrow>
               Some (Inr (Some (dependency, if length errors > 0 then Some errors else None)),
                     m'')))"

definition generateRemappingIntoNpmFile ::
  "ResolvedNpmPackage \<Rightarrow> string \<Rightarrow> string \<Rightarrow> Remapping" where
  "generateRemappingIntoNpmFile fromNpmPackage directImport newSourceName =
     \<lparr>rm_context = rootSourceName fromNpmPackage @ ''/'',
      rm_prefix = directImport,
      rm_target = newSourceName\<rparr>"


section \<open>Selecting and applying user remappings\<close>

text \<open>
  Modelled from the spec: \<^verbatim>\<open>selectBestRemapping\<close> and \<^verbatim>\<open>applyValidRemapping\<close> belong
  to \<^verbatim>\<open>remappings.ts\<close>, which is not among the sources. Section 4.4: only the
  remappings whose context is a prefix of the source name of the importing file and whose
  prefix is a prefix of the direct import are considered; the longest context wins, then
  the longest prefix, then the remapping parsed last. A remapping is applied by replacing
  its prefix with its target.
\<close>

definition remappingMatches :: "string \<Rightarrow> string \<Rightarrow> ResolvedUserRemapping \<Rightarrow> bool" where
  "remappingMatches fromSourceName directImport r =
     (startsWith fromSourceName (rm_context r) \<and> startsWith directImport (rm_prefix r))"

definition betterOrEqual :: "ResolvedUserRemapping \<Rightarrow> ResolvedUserRemapping \<Rightarrow> bool" where
  "betterOrEqual r best =
     (length (rm_context r) > length (rm_context best) \<or>
      (length (rm_context r) = length (rm_context best) \<and>
       length (rm_prefix r) \<ge> length (rm_prefix best)))"

fun selectBest ::
  "string \<Rightarrow> string \<Rightarrow> ResolvedUserRemapping option \<Rightarrow> ResolvedUserRemapping list \<Rightarrow>
     ResolvedUserRemapping option" where
  "selectBest fromSourceName directImport best [] = best"
| "selectBest fromSourceName directImport best (r # rs) =
     (if remappingMatches fromSourceName directImport r then
        (case best of
           None \<Rightarrow> selectBest fromSourceName directImport (Some r) rs
         | Some b \<Rightarrow>
             if betterOrEqual r b then selectBest fromSourceName directImport (Some r) rs
             else selectBest fromSourceName directImport best rs)
      else selectBest fromSourceName directImport best rs)"

definition selectBestRemapping ::
  "string \<Rightarrow> string \<Rightarrow> ResolvedUserRemapping list \<Rightarrow> ResolvedUserRemapping option" where
  "selectBestRemapping fromSourceName directImport remappings =
     selectBest fromSourceName directImport None remappings"

definition applyValidRemapping :: "string \<Rightarrow> ResolvedUserRemapping \<Rightarrow> string" where
  "applyValidRemapping directImport remapping =
     rm_target remapping @ substring directImport (length (rm_prefix remapping))"

section \<open>The resolver\<close>

datatype ResolvedFileType = PROJECT_FILE | NPM_PACKAGE_FILE

record FileContent =
  fc_text :: string
  importPaths :: "string list"
  versionPragmas :: "string list"

text \<open>A resolved file is an object too: \<open>file_ident\<close> is the number it received when
  it was constructed, so a fresh copy of a file differs from the file.\<close>

record ResolvedFile =
  file_ident :: nat
  file_type :: ResolvedFileType
  sourceName :: string
  fsPath :: string
  content :: FileContent
  file_package :: ResolvedNpmPackage

record UserRemappingReference =
  originalUserRemapping :: string
  actualUserRemapping :: string
  remappingSource :: string

record ResolvedFileReference =
  ref_npmPackage :: "ResolvedNpmPackage option"
  ref_userRemapping :: "UserRemappingReference option"
  ref_subpath :: string
  packageExportsResolvedSubpath :: "string option"

text \<open>The errors of \<^verbatim>\<open>resolveImport\<close>; the first two fields of each are
  \<^verbatim>\<open>fromFsPath\<close> and \<^verbatim>\<open>importPath\<close>.\<close>

datatype ImportResolutionError =
    IMPORT_WITH_WINDOWS_PATH_SEPARATORS string string
  | ILLEGAL_RELATIVE_IMPORT string string
  | IMPORT_DOESNT_EXIST string string ResolvedFileReference
  | IMPORT_INVALID_CASING string string ResolvedFileReference string
  | IMPORT_WITH_INVALID_NPM_SYNTAX string string
  | IMPORT_OF_UNINSTALLED_PACKAGE string string string
  | IMPORT_OF_NPM_PACKAGE_WITH_REMAPPING_ERRORS string string ResolvedNpmPackage
      "UserRemappingError list"
  | IMPORT_OF_NON_EXPORTED_NPM_FILE string string ResolvedFileReference

datatype ProjectRootResolutionError =
    PROJECT_ROOT_FILE_NOT_IN_PROJECT string
  | PROJECT_ROOT_FILE_DOESNT_EXIST string
  | PROJECT_ROOT_FILE_IN_NODE_MODULES string

text \<open>The remapping carried by a successful import is a user remapping or a remapping
  that the map generated.\<close>

datatype CarriedRemapping = UserRemapping ResolvedUserRemapping | PlainRemapping Remapping

record ResolvedImport =
  ri_file :: ResolvedFile
  ri_remapping :: "CarriedRemapping option"

text \<open>
  What \<^verbatim>\<open>#resolveImport\<close> returns. Its declared type is a \<^verbatim>\<open>Result\<close>, but
  \<^verbatim>\<open>#resolveRelativeImport\<close> returns the number 1 through \<^verbatim>\<open>as any\<close>, so a
  returned value is a result or a number.
\<close>

datatype ImportResolution =
    ImportResult "(ResolvedImport, ImportResolutionError) Result"
  | NotAResult int

record NewResolverImplementation =
  projectRoot :: string
  npmPackageMap :: RemappedNpmPackagesMap
  resolvedFileBySourceName :: "string \<rightharpoonup> ResolvedFile"
  fakeRootFile :: ResolvedFile
  nextFileIdent :: nat

definition readFileContent :: "Env \<Rightarrow> string \<Rightarrow> js_exception + FileContent" where
  "readFileContent env absolutePath =
     (case readUtf8File env absolutePath of
        None \<Rightarrow> Inl (FsError absolutePath)
      | Some txt \<Rightarrow>
          (case analyze env txt of
             (imports, pragmas) \<Rightarrow>
               Inr \<lparr>fc_text = txt, importPaths = imports, versionPragmas = pragmas\<rparr>))"

datatype PathValidation = PathValid | DOESNT_EXIST | CASING_ERROR string

definition validateFsPath :: "Env \<Rightarrow> string \<Rightarrow> string \<Rightarrow> PathValidation" where
  "validateFsPath env from relative =
     (case getFileTrueCase env from relative of
        None \<Rightarrow> DOESNT_EXIST
      | Some trueCaseFsPath \<Rightarrow>
          if relative \<noteq> trueCaseFsPath then CASING_ERROR trueCaseFsPath else PathValid)"

definition newResolver :: "string \<Rightarrow> RemappedNpmPackagesMap \<Rightarrow> NewResolverImplementation" where
  "newResolver root npmPackagesMap =
     \<lparr>projectRoot = root,
      npmPackageMap = npmPackagesMap,
      resolvedFileBySourceName = Map.empty,
      fakeRootFile =
        \<lparr>file_ident = 0,
         file_type = PROJECT_FILE,
         sourceName = sourceNamePathJoin
           [rootSourceName (hardhatProjectPackage npmPackagesMap), ''<root>.sol''],
         fsPath = path_join [root, ''<root>.sol''],
         content = \<lparr>fc_text = [], importPaths = [], versionPragmas = []\<rparr>,
         file_package = hardhatProjectPackage npmPackagesMap\<rparr>,
      nextFileIdent = 1\<rparr>"

definition createResolver ::
  "Env \<Rightarrow> string \<Rightarrow>
     (js_exception + (NewResolverImplementation, UserRemappingError list) Result) option" where
  "createResolver env root =
     (case create env root of
        None \<Rightarrow> None
      | Some (Inl e) \<Rightarrow> Some (Inl e)
      | Some (Inr (Failure errors)) \<Rightarrow> Some (Inr (Failure errors))
      | Some (Inr (Success m)) \<Rightarrow> Some (Inr (Success (newResolver root m))))"

definition projectSourceName :: "NewResolverImplementation \<Rightarrow> string \<Rightarrow> string" where
  "projectSourceName s relativeFilePath =
     sourceNamePathJoin
       [rootSourceName (hardhatProjectPackage (npmPackageMap s)),
        fsPathToSourceNamePath relativeFilePath]"

text \<open>
  \<^verbatim>\<open>resolveProjectFile\<close>, in two parts: up to the validation of the path, and from the
  \<^verbatim>\<open>node_modules\<close> check on, where \<open>realCaseingRelativePath\<close> and
  \<open>newSourceName\<close> are the values of the two variables after the validation.
\<close>

definition resolveProjectFileWithCasing ::
  "Env \<Rightarrow> string \<Rightarrow> string \<Rightarrow> string \<Rightarrow> NewResolverImplementation \<Rightarrow>
     (js_exception + (ResolvedFile, ProjectRootResolutionError) Result) \<times>
     NewResolverImplementation" where
  "resolveProjectFileWithCasing env absoluteFilePath realCaseingRelativePath newSourceName s =
     (if startsWith newSourceName
           (sourceNamePathJoin
              [rootSourceName (hardhatProjectPackage (npmPackageMap s)), ''node_modules/''])
      then (Inr (Failure (PROJECT_ROOT_FILE_IN_NODE_MODULES absoluteFilePath)), s)
      else
        (case resolvedFileBySourceName s newSourceName of
           Some resolvedWithTheRightCasing \<Rightarrow> (Inr (Success resolvedWithTheRightCasing), s)
         | None \<Rightarrow>
             (let fsPathWithTheRightCasing = path_join [projectRoot s, realCaseingRelativePath]
              in (case readFileContent env fsPathWithTheRightCasing of
                    Inl e \<Rightarrow> (Inl e, s)
                  | Inr fileContent \<Rightarrow>
                      (let resolvedFile =
                             \<lparr>file_ident = nextFileIdent s,
                              file_type = PROJECT_FILE,
                              sourceName = newSourceName,
                              fsPath = fsPathWithTheRightCasing,
                              content = fileContent,
                              file_package = hardhatProjectPackage (npmPackageMap s)\<rparr>
                       in (Inr (Success resolvedFile),
                           s\<lparr>resolvedFileBySourceName :=
                                (resolvedFileBySourceName s)(newSourceName \<mapsto> resolvedFile),
                              nextFileIdent := Suc (nextFileIdent s)\<rparr>))))))"

definition resolveProjectFile ::
  "Env \<Rightarrow> string \<Rightarrow> NewResolverImplementation \<Rightarrow>
     (js_exception + (ResolvedFile, ProjectRootResolutionError) Result) \<times>
     NewResolverImplementation" where
  "resolveProjectFile env absoluteFilePath s =
     (if \<not> startsWith absoluteFilePath (projectRoot s) then
        (Inr (Failure (PROJECT_ROOT_FILE_NOT_IN_PROJECT absoluteFilePath)), s)
      else
        (let relativeFilePath = path_relative (projectRoot s) absoluteFilePath
         in (case resolvedFileBySourceName s (projectSourceName s relativeFilePath) of
               Some existing \<Rightarrow> (Inr (Success existing), s)
             | None \<Rightarrow>
                 (case validateFsPath env (projectRoot s) relativeFilePath of
                    DOESNT_EXIST \<Rightarrow>
                      (Inr (Failure (PROJECT_ROOT_FILE_DOESNT_EXIST absoluteFilePath)), s)
                  | CASING_ERROR correctCasing \<Rightarrow>
                      resolveProjectFileWithCasing env absoluteFilePath correctCasing
                        (projectSourceName s correctCasing) s
                  | PathValid \<Rightarrow>
                      resolveProjectFileWithCasing env absoluteFilePath relativeFilePath
                        (projectSourceName s relativeFilePath) s))))"


definition fromNpmPackageOf :: "NewResolverImplementation \<Rightarrow> ResolvedFile \<Rightarrow> ResolvedNpmPackage" where
  "fromNpmPackageOf s from =
     (if file_type from = NPM_PACKAGE_FILE then file_package from
      else hardhatProjectPackage (npmPackageMap s))"

definition getRelativeSourceNamePath ::
  "NewResolverImplementation \<Rightarrow> ResolvedNpmPackage \<Rightarrow> string \<Rightarrow> string" where
  "getRelativeSourceNamePath s nmpPackage fileSourceName =
     (if nmpPackage = hardhatProjectPackage (npmPackageMap s) then fileSourceName
      else substring fileSourceName (length (rootSourceName nmpPackage) + 1))"

definition buildUserRemappingReference ::
  "Env \<Rightarrow> ResolvedUserRemapping \<Rightarrow> UserRemappingReference" where
  "buildUserRemappingReference env userRemapping =
     \<lparr>originalUserRemapping = originalFormat userRemapping,
      actualUserRemapping = formatRemapping env userRemapping,
      remappingSource = source userRemapping\<rparr>"

definition buildResolvedFileReference ::
  "Env \<Rightarrow> NewResolverImplementation \<Rightarrow> ResolvedNpmPackage \<Rightarrow> string \<Rightarrow>
     ResolvedUserRemapping option \<Rightarrow> string option \<Rightarrow> ResolvedFileReference" where
  "buildResolvedFileReference env s targetPackage subpath userRemapping exportsResolvedSubpath =
     \<lparr>ref_npmPackage =
        (if targetPackage \<noteq> hardhatProjectPackage (npmPackageMap s) then Some targetPackage
         else None),
      ref_userRemapping = map_option (buildUserRemappingReference env) userRemapping,
      ref_subpath = subpath,
      packageExportsResolvedSubpath = exportsResolvedSubpath\<rparr>"

text \<open>\<^verbatim>\<open>#buildResolvedFile\<close>: the new object takes the next identity; the caller, which
  interns the file, advances the counter.\<close>

definition buildResolvedFile ::
  "Env \<Rightarrow> NewResolverImplementation \<Rightarrow> string \<Rightarrow> string \<Rightarrow> ResolvedNpmPackage \<Rightarrow>
     js_exception + ResolvedFile" where
  "buildResolvedFile env s newSourceName newFsPath npmPackage =
     (case readFileContent env newFsPath of
        Inl e \<Rightarrow> Inl e
      | Inr fileContent \<Rightarrow>
          if npmPackage = hardhatProjectPackage (npmPackageMap s) then
            Inr \<lparr>file_ident = nextFileIdent s, file_type = PROJECT_FILE,
                 sourceName = newSourceName, fsPath = newFsPath, content = fileContent,
                 file_package = hardhatProjectPackage (npmPackageMap s)\<rparr>
          else
            (case readFileContent env newFsPath of
               Inl e \<Rightarrow> Inl e
             | Inr fileContentAgain \<Rightarrow>
                 Inr \<lparr>file_ident = nextFileIdent s, file_type = NPM_PACKAGE_FILE,
                      sourceName = newSourceName, fsPath = newFsPath,
                      content = fileContentAgain, file_package = npmPackage\<rparr>))"

definition internFile ::
  "string \<Rightarrow> ResolvedFile \<Rightarrow> NewResolverImplementation \<Rightarrow> NewResolverImplementation" where
  "internFile newSourceName resolvedFile s =
     s\<lparr>resolvedFileBySourceName := (resolvedFileBySourceName s)(newSourceName \<mapsto> resolvedFile),
       nextFileIdent := Suc (nextFileIdent s)\<rparr>"

text \<open>\<^verbatim>\<open>#resolveRelativeImport\<close> is \<^verbatim>\<open>return 1 as any\<close>.\<close>

definition resolveRelativeImport ::
  "ResolvedFile \<Rightarrow> string \<Rightarrow> string \<Rightarrow> ImportResolution" where
  "resolveRelativeImport from importPath directImport = NotAResult 1"

definition resolveUserRemappedImport ::
  "Env \<Rightarrow> ResolvedFile \<Rightarrow> string \<Rightarrow> string \<Rightarrow> ResolvedUserRemapping \<Rightarrow>
     NewResolverImplementation \<Rightarrow>
     (js_exception + (ResolvedImport, ImportResolutionError) Result) \<times>
     NewResolverImplementation" where
  "resolveUserRemappedImport env from importPath directImport remapping s =
     (let remappedDirectImport = applyValidRemapping directImport remapping;
          newSourceName = remappedDirectImport
      in (case resolvedFileBySourceName s remappedDirectImport of
            Some existing \<Rightarrow>
              (Inr (Success \<lparr>ri_file = existing,
                             ri_remapping = Some (UserRemapping remapping)\<rparr>), s)
          | None \<Rightarrow>
              (let fromNpmPackage = fromNpmPackageOf s from;
                   targetPackage =
                     (case targetNpmPackage remapping of
                        Some t \<Rightarrow> tnp_package t
                      | None \<Rightarrow> fromNpmPackage);
                   relativeSourceNamePath = getRelativeSourceNamePath s targetPackage newSourceName;
                   relativeFsPath = sourceNamePathToFsPath relativeSourceNamePath
               in (case validateFsPath env (rootFsPath targetPackage) relativeFsPath of
                     DOESNT_EXIST \<Rightarrow>
                       (Inr (Failure (IMPORT_DOESNT_EXIST (fsPath from) importPath
                          (buildResolvedFileReference env s targetPackage
                             relativeSourceNamePath (Some remapping) None))), s)
                   | CASING_ERROR correctCasing \<Rightarrow>
                       (Inr (Failure (IMPORT_INVALID_CASING (fsPath from) importPath
                          (buildResolvedFileReference env s targetPackage
                             relativeSourceNamePath (Some remapping) None) correctCasing)), s)
                   | PathValid \<Rightarrow>
                       (case buildResolvedFile env s newSourceName
                               (path_join [rootFsPath targetPackage, relativeFsPath])
                               targetPackage of
                          Inl e \<Rightarrow> (Inl e, s)
                        | Inr resolvedFile \<Rightarrow>
                            (Inr (Success \<lparr>ri_file = resolvedFile,
                                           ri_remapping = Some (UserRemapping remapping)\<rparr>),
                             internFile newSourceName resolvedFile s))))))"

text \<open>\<^verbatim>\<open>resolveSubpathWithPackageExports\<close>: a throw of \<^verbatim>\<open>resolve.exports\<close> is the
  failure; the first output loses its leading \<^verbatim>\<open>./\<close> and has its separators replaced
  by the host's.\<close>

definition resolveSubpathWithPackageExports ::
  "Env \<Rightarrow> ResolvedNpmPackage \<Rightarrow> string \<Rightarrow> js_exception + (string, unit) Result" where
  "resolveSubpathWithPackageExports env npmPackage subpath =
     (case resolve_exports env npmPackage subpath of
        ExportsThrows \<Rightarrow> Inr (Failure ())
      | ExportsReturns None \<Rightarrow>
          Inl (HardhatInvariantError
            ''resolve.exports should always return a result when package.exports exist'')
      | ExportsReturns (Some []) \<Rightarrow> Inl (TypeError ''resolveOutput[0] is undefined'')
      | ExportsReturns (Some (first # others)) \<Rightarrow>
          Inr (Success (map (\<lambda>c. if c = CHR 0x5C then CHR ''/'' else c) (drop 2 first))))"

definition setMap ::
  "RemappedNpmPackagesMap \<Rightarrow> NewResolverImplementation \<Rightarrow> NewResolverImplementation" where
  "setMap m s = s\<lparr>npmPackageMap := m\<rparr>"

text \<open>The part of \<^verbatim>\<open>#resolveImportThroughNpm\<close> that follows the resolution of the
  dependency and the check of its remapping errors.\<close>

definition resolveNpmFile ::
  "Env \<Rightarrow> ResolvedFile \<Rightarrow> string \<Rightarrow> string \<Rightarrow> NpmDirectImport \<Rightarrow> Dependency \<Rightarrow>
     NewResolverImplementation \<Rightarrow>
     (js_exception + (ResolvedImport, ImportResolutionError) Result) \<times>
     NewResolverImplementation" where
  "resolveNpmFile env from importPath directImport parsedDirectImport dependencyResolution s =
     (let fromNpmPackage = fromNpmPackageOf s from;
          dependency = dep_package dependencyResolution;
          subpath = ndi_subpath parsedDirectImport
      in (case (case exports dependency of
                  None \<Rightarrow> Inr (Success None)
                | Some ex \<Rightarrow>
                    (case resolveSubpathWithPackageExports env dependency subpath of
                       Inl e \<Rightarrow> Inl e
                     | Inr (Failure u) \<Rightarrow> Inr (Failure u)
                     | Inr (Success v) \<Rightarrow> Inr (Success (Some v)))) of
            Inl e \<Rightarrow> (Inl e, s)
          | Inr (Failure u) \<Rightarrow>
              (Inr (Failure (IMPORT_OF_NON_EXPORTED_NPM_FILE (fsPath from) importPath
                 (buildResolvedFileReference env s dependency subpath None None))), s)
          | Inr (Success resolvedSubpath) \<Rightarrow>
              (let relativePath = (case resolvedSubpath of Some r \<Rightarrow> r | None \<Rightarrow> subpath);
                   newSourceName = sourceNamePathJoin [rootSourceName dependency, relativePath];
                   remapping =
                     (if (resolvedSubpath \<noteq> None \<and> resolvedSubpath \<noteq> Some subpath) \<or>
                         directImport = ''hardhat/console.sol''
                      then generateRemappingIntoNpmFile fromNpmPackage directImport newSourceName
                      else generatedRemapping dependencyResolution)
               in (case resolvedFileBySourceName s newSourceName of
                     Some existing \<Rightarrow>
                       (Inr (Success \<lparr>ri_file = existing,
                                      ri_remapping = Some (PlainRemapping remapping)\<rparr>), s)
                   | None \<Rightarrow>
                       (case validateFsPath env (rootFsPath dependency) relativePath of
                          DOESNT_EXIST \<Rightarrow>
                            (Inr (Failure (IMPORT_DOESNT_EXIST (fsPath from) importPath
                               (buildResolvedFileReference env s dependency subpath None
                                  resolvedSubpath))), s)
                        | CASING_ERROR correctCasing \<Rightarrow>
                            (Inr (Failure (IMPORT_INVALID_CASING (fsPath from) importPath
                               (buildResolvedFileReference env s dependency subpath None
                                  resolvedSubpath) correctCasing)), s)
                        | PathValid \<Rightarrow>
                            (case buildResolvedFile env s newSourceName
                                    (path_join [rootFsPath dependency, relativePath])
                                    dependency of
                               Inl e \<Rightarrow> (Inl e, s)
                             | Inr resolvedFile \<Rightarrow>
                                 (Inr (Success \<lparr>ri_file = resolvedFile,
                                                ri_remapping = Some (PlainRemapping remapping)\<rparr>),
                                  internFile newSourceName resolvedFile s)))))))"

definition resolveImportThroughNpm ::
  "Env \<Rightarrow> ResolvedFile \<Rightarrow> string \<Rightarrow> string \<Rightarrow> NewResolverImplementation \<Rightarrow>
     ((js_exception + (ResolvedImport, ImportResolutionError) Result) \<times>
      NewResolverImplementation) option" where
  "resolveImportThroughNpm env from importPath directImport s =
     (case parseNpmDirectImport directImport of
        None \<Rightarrow>
          Some (Inr (Failure (IMPORT_WITH_INVALID_NPM_SYNTAX (fsPath from) importPath)), s)
      | Some parsedDirectImport \<Rightarrow>
          (case resolveDependencyByInstallationName env (fromNpmPackageOf s from)
                  (ndi_package parsedDirectImport) (npmPackageMap s) of
             None \<Rightarrow> None
           | Some (Inl e, m') \<Rightarrow> Some (Inl e, setMap m' s)
           | Some (Inr None, m') \<Rightarrow>
               Some (Inr (Failure (IMPORT_OF_UNINSTALLED_PACKAGE (fsPath from) importPath
                       (ndi_package parsedDirectImport))), setMap m' s)
           | Some (Inr (Some (dependencyResolution, Some remappingErrros)), m') \<Rightarrow>
               Some (Inr (Failure (IMPORT_OF_NPM_PACKAGE_WITH_REMAPPING_ERRORS (fsPath from)
                       importPath (dep_package dependencyResolution) remappingErrros)),
                     setMap m' s)
           | Some (Inr (Some (dependencyResolution, None)), m') \<Rightarrow>
               Some (resolveNpmFile env from importPath directImport parsedDirectImport
                       dependencyResolution (setMap m' s))))"

text \<open>
  \<^verbatim>\<open>#tryToGenerateDirectLocalImportError\<close>: the loop climbs from the directory of the
  importing file while the directory starts with the root of the package; it throws where
  the import path names an existing file, and a climb that never ends is \<open>None\<close>.
\<close>

partial_function (option) directLocalImportLoop ::
  "Env \<Rightarrow> ResolvedFile \<Rightarrow> string \<Rightarrow> string \<Rightarrow>
     (js_exception + ImportResolutionError option) option" where
  "directLocalImportLoop env from importPath baseDir =
     (if startsWith baseDir (rootFsPath (file_package from)) then
        (if exists env (path_join [baseDir, importPath])
         then Some (Inl (Error ''Invalid direct import''))
         else directLocalImportLoop env from importPath (path_dirname baseDir))
      else Some (Inr None))"

declare directLocalImportLoop.simps [code]

definition tryToGenerateDirectLocalImportError ::
  "Env \<Rightarrow> ResolvedFile \<Rightarrow> string \<Rightarrow> (js_exception + ImportResolutionError option) option" where
  "tryToGenerateDirectLocalImportError env from importPath =
     directLocalImportLoop env from importPath (path_dirname (fsPath from))"

definition uninstalledOrInvalidNpmSyntax :: "ImportResolutionError \<Rightarrow> bool" where
  "uninstalledOrInvalidNpmSyntax err =
     (case err of
        IMPORT_OF_UNINSTALLED_PACKAGE f i n \<Rightarrow> True
      | IMPORT_WITH_INVALID_NPM_SYNTAX f i \<Rightarrow> True
      | _ \<Rightarrow> False)"

definition isRelative :: "string \<Rightarrow> bool" where
  "isRelative importPath = (startsWith importPath ''./'' \<or> startsWith importPath ''../'')"

definition directImportOf :: "ResolvedFile \<Rightarrow> string \<Rightarrow> string" where
  "directImportOf from importPath =
     (if isRelative importPath
      then sourceNamePathJoin [path_dirname (sourceName from), importPath]
      else importPath)"

text \<open>The npm branch of \<^verbatim>\<open>#resolveImport\<close>, with the fallback diagnostic.\<close>

definition resolveDirectImportThroughNpm ::
  "Env \<Rightarrow> ResolvedFile \<Rightarrow> string \<Rightarrow> string \<Rightarrow> NewResolverImplementation \<Rightarrow>
     ((js_exception + ImportResolution) \<times> NewResolverImplementation) option" where
  "resolveDirectImportThroughNpm env from importPath directImport s =
     (case resolveImportThroughNpm env from importPath directImport s of
        None \<Rightarrow> None
      | Some (Inl e, s') \<Rightarrow> Some (Inl e, s')
      | Some (Inr (Success v), s') \<Rightarrow> Some (Inr (ImportResult (Success v)), s')
      | Some (Inr (Failure npmError), s') \<Rightarrow>
          if uninstalledOrInvalidNpmSyntax npmError then
            (case tryToGenerateDirectLocalImportError env from importPath of
               None \<Rightarrow> None
             | Some (Inl e) \<Rightarrow> Some (Inl e, s')
             | Some (Inr (Some improvedError)) \<Rightarrow>
                 Some (Inr (ImportResult (Failure improvedError)), s')
             | Some (Inr None) \<Rightarrow> Some (Inr (ImportResult (Failure npmError)), s'))
          else Some (Inr (ImportResult (Failure npmError)), s'))"

text \<open>\<^verbatim>\<open>#resolveImport\<close>; the public \<^verbatim>\<open>resolveImport\<close> runs it under the mutex.\<close>

definition resolveImport ::
  "Env \<Rightarrow> ResolvedFile \<Rightarrow> string \<Rightarrow> NewResolverImplementation \<Rightarrow>
     ((js_exception + ImportResolution) \<times> NewResolverImplementation) option" where
  "resolveImport env from importPath s =
     (if js_includes importPath [CHR 0x5C] then
        Some (Inr (ImportResult (Failure
          (IMPORT_WITH_WINDOWS_PATH_SEPARATORS (fsPath from) importPath))), s)
      else
        (let isRelativeImport = isRelative importPath;
             directImport = directImportOf from importPath
         in
           if isRelativeImport \<and>
              \<not> startsWith directImport (rootSourceName (file_package from))
           then
             Some (Inr (ImportResult (Failure
               (ILLEGAL_RELATIVE_IMPORT (fsPath from) importPath))), s)
           else
             (case getUserRemappings (npmPackageMap s) (file_package from) of
                Inl e \<Rightarrow> Some (Inl e, s)
              | Inr packageUserRemappigns \<Rightarrow>
                  (case selectBestRemapping (sourceName from) directImport
                          packageUserRemappigns of
                     Some bestUserRemapping \<Rightarrow>
                       if isRelativeImport
                       then Some (Inl (Error ''Invalid relative import and remapping''), s)
                       else
                         (case resolveUserRemappedImport env from importPath directImport
                                 bestUserRemapping s of
                            (Inl e, s') \<Rightarrow> Some (Inl e, s')
                          | (Inr r, s') \<Rightarrow> Some (Inr (ImportResult r), s'))
                   | None \<Rightarrow>
                       if isRelativeImport
                       then Some (Inr (resolveRelativeImport from importPath directImport), s)
                       else resolveDirectImportThroughNpm env from importPath directImport s))))"

section \<open>Concrete projects\<close>

text \<open>
  The projects of the scenarios are rooted at \<^verbatim>\<open>/p\<close>, with the
  \<^verbatim>\<open>package.json\<close> of the repository's tests.
\<close>

definition demoPackageJson :: PackageJson where
  "demoPackageJson =
     \<lparr>pj_name = ''top-level-remappings'', pj_version = ''1.2.4'', pj_exports = None\<rparr>"

definition demoProject :: ResolvedNpmPackage where
  "demoProject =
     \<lparr>pkg_ident = 0, name = ''top-level-remappings'', version = ''1.2.4'',
      rootFsPath = ''/p'', rootSourceName = ''project'', exports = None\<rparr>"

definition demoFormat :: "ResolvedUserRemapping \<Rightarrow> string" where
  "demoFormat r = rm_context r @ '':'' @ rm_prefix r @ ''='' @ rm_target r"

text \<open>A project with \<^verbatim>\<open>contracts/A.sol\<close> and \<^verbatim>\<open>contracts/B.sol\<close>, no
  \<^verbatim>\<open>remappings.txt\<close> and no dependency.\<close>

definition plainEnv :: Env where
  "plainEnv =
     \<lparr>readJsonFile = (\<lambda>p. if p = ''/p/package.json'' then Some demoPackageJson else None),
      readUtf8File =
        (\<lambda>p. if p = ''/p/contracts/A.sol'' \<or> p = ''/p/contracts/B.sol''
             then Some ''contract C {}'' else None),
      getAllFilesMatching = (\<lambda>dir matches dirFilter. []),
      findDependencyPackageJson = (\<lambda>from instName. None),
      exists = (\<lambda>p. p = ''/p/contracts/A.sol'' \<or> p = ''/p/contracts/B.sol''),
      getFileTrueCase =
        (\<lambda>dir r. if dir = ''/p'' \<and> (r = ''contracts/A.sol'' \<or> r = ''contracts/B.sol'')
               then Some r else None),
      analyze = (\<lambda>txt. ([], [])),
      resolve_exports = (\<lambda>pkg subpath. ExportsThrows),
      formatRemapping = demoFormat\<rparr>"

definition plainMap :: RemappedNpmPackagesMap where
  "plainMap =
     \<lparr>hardhatProjectPackage = demoProject,
      installationMap = [demoProject \<mapsto> Map.empty],
      packageByRootSourceName = [''project'' \<mapsto> demoProject],
      userRemappingsPerPackage = [demoProject \<mapsto> []],
      remappingsToResolve = [],
      nextPackageIdent = 1\<rparr>"

definition fileA :: ResolvedFile where
  "fileA =
     \<lparr>file_ident = 1, file_type = PROJECT_FILE, sourceName = ''project/contracts/A.sol'',
      fsPath = ''/p/contracts/A.sol'',
      content = \<lparr>fc_text = ''contract C {}'', importPaths = [], versionPragmas = []\<rparr>,
      file_package = demoProject\<rparr>"

text \<open>The same project on a file system that ignores case: \<^verbatim>\<open>contracts/a.sol\<close> names the
  file stored as \<^verbatim>\<open>contracts/A.sol\<close>.\<close>

definition caseEnv :: Env where
  "caseEnv =
     plainEnv\<lparr>getFileTrueCase :=
       (\<lambda>dir r. if dir = ''/p'' \<and> (r = ''contracts/A.sol'' \<or> r = ''contracts/a.sol'')
              then Some ''contracts/A.sol'' else None)\<rparr>"

text \<open>
  A project whose \<^verbatim>\<open>remappings.txt\<close> targets two installations, \<^verbatim>\<open>dep1\<close> and
  \<^verbatim>\<open>dep1-alias\<close>, of the same package \<^verbatim>\<open>dep1\<close> at version 1.2.0.
\<close>

definition dep1PackageJson :: PackageJson where
  "dep1PackageJson = \<lparr>pj_name = ''dep1'', pj_version = ''1.2.0'', pj_exports = None\<rparr>"

definition aliasRemappingsTxt :: string where
  "aliasRemappingsTxt =
     ''a/=node_modules/dep1/src/'' @ [CHR 0x0A] @ ''b/=node_modules/dep1-alias/src/''"

definition aliasEnv :: Env where
  "aliasEnv =
     \<lparr>readJsonFile =
        (\<lambda>p. if p = ''/p/package.json'' then Some demoPackageJson
             else if p = ''/p/node_modules/dep1/package.json'' \<or>
                     p = ''/p/node_modules/dep1-alias/package.json''
             then Some dep1PackageJson else None),
      readUtf8File = (\<lambda>p. if p = ''/p/remappings.txt'' then Some aliasRemappingsTxt else None),
      getAllFilesMatching =
        (\<lambda>dir matches dirFilter. if dir = ''/p'' then [''/p/remappings.txt''] else []),
      findDependencyPackageJson =
        (\<lambda>from instName.
           if from = ''/p'' \<and> instName = ''dep1''
           then Some ''/p/node_modules/dep1/package.json''
           else if from = ''/p'' \<and> instName = ''dep1-alias''
           then Some ''/p/node_modules/dep1-alias/package.json''
           else None),
      exists = (\<lambda>p. False),
      getFileTrueCase = (\<lambda>dir r. None),
      analyze = (\<lambda>txt. ([], [])),
      resolve_exports = (\<lambda>pkg subpath. ExportsThrows),
      formatRemapping = demoFormat\<rparr>"

definition dep1Package :: ResolvedNpmPackage where
  "dep1Package =
     \<lparr>pkg_ident = 1, name = ''dep1'', version = ''1.2.0'',
      rootFsPath = ''/p/node_modules/dep1'', rootSourceName = ''npm/dep1@1.2.0'',
      exports = None\<rparr>"

text \<open>
  A project without dependencies whose \<^verbatim>\<open>remappings.txt\<close> files are the given ones:
  absolute path and contents, in the order in which the enumeration of the project
  directory discovers them.
\<close>

definition remappingsEnv :: "(string \<times> string) list \<Rightarrow> Env" where
  "remappingsEnv files =
     \<lparr>readJsonFile = (\<lambda>p. if p = ''/p/package.json'' then Some demoPackageJson else None),
      readUtf8File = map_of files,
      getAllFilesMatching =
        (\<lambda>dir matches dirFilter. if dir = ''/p'' then filter matches (map fst files) else []),
      findDependencyPackageJson = (\<lambda>from instName. None),
      exists = (\<lambda>p. False),
      getFileTrueCase = (\<lambda>dir r. None),
      analyze = (\<lambda>txt. ([], [])),
      resolve_exports = (\<lambda>pkg subpath. ExportsThrows),
      formatRemapping = demoFormat\<rparr>"

text \<open>Scenario 2 of the tests: a lone \<^verbatim>\<open>lib/submodule/remappings.txt\<close> whose line has a
  target without the final slash.\<close>

definition slashEnv :: Env where
  "slashEnv = remappingsEnv [(''/p/lib/submodule/remappings.txt'', ''foo/=bar'' @ [CHR 0x0A])]"

text \<open>A \<^verbatim>\<open>remappings.txt\<close> whose line targets \<^verbatim>\<open>node_modules/\<close> with a name that no
  npm package can have, under a different prefix; and one whose prefix is that name.\<close>

definition badNameEnv :: Env where
  "badNameEnv = remappingsEnv [(''/p/remappings.txt'', ''foo/=node_modules/Foo/'' @ [CHR 0x0A])]"

definition samePrefixEnv :: Env where
  "samePrefixEnv = remappingsEnv [(''/p/remappings.txt'', ''Foo/=node_modules/Foo/'' @ [CHR 0x0A])]"

text \<open>What a caller of \<^verbatim>\<open>create\<close> sees: the errors of a failure, or the remappings of
  the project package in the map of a success.\<close>

definition errorsOf ::
  "(js_exception + (RemappedNpmPackagesMap, UserRemappingError list) Result) option \<Rightarrow>
     UserRemappingError list option" where
  "errorsOf outcome = (case outcome of Some (Inr (Failure errors)) \<Rightarrow> Some errors | _ \<Rightarrow> None)"

definition projectRemappingsOf ::
  "(js_exception + (RemappedNpmPackagesMap, UserRemappingError list) Result) option \<Rightarrow>
     ResolvedUserRemapping list option" where
  "projectRemappingsOf outcome =
     (case outcome of
        Some (Inr (Success m)) \<Rightarrow>
          (case getUserRemappings m (hardhatProjectPackage m) of
             Inr remappings \<Rightarrow> Some remappings
           | Inl e \<Rightarrow> None)
      | _ \<Rightarrow> None)"

text \<open>Scenario 1 of the tests: one \<^verbatim>\<open>remappings.txt\<close> at the root, with two remappings
  separated by a blank line, the second one indented.\<close>

definition scenario1Txt :: string where
  "scenario1Txt =
     ''foo/=bar/'' @ [CHR 0x0A, CHR 0x0A] @ '' context/:prefix/=target/'' @ [CHR 0x0A]"

definition scenario1Env :: Env where
  "scenario1Env = remappingsEnv [(''/p/remappings.txt'', scenario1Txt)]"

text \<open>Scenario 3 of the tests: the enumeration lists the files of \<^verbatim>\<open>lib/submodule\<close> and
  \<^verbatim>\<open>lib/submodule2\<close> before the one at the root.\<close>

definition threeFilesEnv :: Env where
  "threeFilesEnv =
     remappingsEnv
       [(''/p/lib/submodule/remappings.txt'', ''context/:prefix/=target/''),
        (''/p/lib/submodule2/remappings.txt'', ''context/:prefix/=target/''),
        (''/p/remappings.txt'', ''foo/=bar/'')]"

text \<open>A project whose nested \<^verbatim>\<open>remappings.txt\<close> is in \<^verbatim>\<open>src\<close>, which an enumeration
  in the order of the names lists after the one at the root.\<close>

definition rootFirstEnv :: Env where
  "rootFirstEnv =
     remappingsEnv
       [(''/p/remappings.txt'', ''foo/=bar/''),
        (''/p/src/remappings.txt'', ''context/:prefix/=target/'')]"

text \<open>
  The project with the dependency \<^verbatim>\<open>dep1\<close> installed, which holds \<^verbatim>\<open>src/C.sol\<close> and no
  \<^verbatim>\<open>remappings.txt\<close>; and a resolver of the project that has resolved
  \<^verbatim>\<open>contracts/A.sol\<close>.
\<close>

definition depEnv :: Env where
  "depEnv =
     \<lparr>readJsonFile =
        (\<lambda>p. if p = ''/p/package.json'' then Some demoPackageJson
             else if p = ''/p/node_modules/dep1/package.json'' then Some dep1PackageJson
             else None),
      readUtf8File =
        (\<lambda>p. if p = ''/p/contracts/A.sol'' \<or> p = ''/p/contracts/B.sol'' \<or>
                p = ''/p/node_modules/dep1/src/C.sol''
             then Some ''contract C {}'' else None),
      getAllFilesMatching = (\<lambda>dir matches dirFilter. []),
      findDependencyPackageJson =
        (\<lambda>from instName.
           if from = ''/p'' \<and> instName = ''dep1''
           then Some ''/p/node_modules/dep1/package.json'' else None),
      exists =
        (\<lambda>p. p = ''/p/contracts/A.sol'' \<or> p = ''/p/contracts/B.sol'' \<or>
             p = ''/p/node_modules/dep1/src/C.sol''),
      getFileTrueCase =
        (\<lambda>dir r. if dir = ''/p'' \<and> (r = ''contracts/A.sol'' \<or> r = ''contracts/B.sol'')
               then Some r
               else if dir = ''/p/node_modules/dep1'' \<and> r = ''src/C.sol'' then Some r
               else None),
      analyze = (\<lambda>txt. ([], [])),
      resolve_exports = (\<lambda>pkg subpath. ExportsThrows),
      formatRemapping = demoFormat\<rparr>"

definition resolverWithA :: NewResolverImplementation where
  "resolverWithA = internFile (sourceName fileA) fileA (newResolver ''/p'' plainMap)"

text \<open>The file of a successful \<^verbatim>\<open>resolveImport\<close>.\<close>

definition importedFile ::
  "((js_exception + ImportResolution) \<times> NewResolverImplementation) option \<Rightarrow>
     ResolvedFile option" where
  "importedFile outcome =
     (case outcome of
        Some (Inr (ImportResult (Success resolved)), s) \<Rightarrow> Some (ri_file resolved)
      | _ \<Rightarrow> None)"

text \<open>
  A project whose \<^verbatim>\<open>remappings.txt\<close> maps \<^verbatim>\<open>lib/\<close> to \<^verbatim>\<open>contracts/\<close>, on a file system
  that ignores case and holds \<^verbatim>\<open>contracts/A.sol\<close>, \<^verbatim>\<open>contracts/B.sol\<close> and a third
  file, \<^verbatim>\<open>project/contracts/B.sol\<close>. The map that \<^verbatim>\<open>create\<close> builds for it holds the one
  remapping; the resolver has resolved \<^verbatim>\<open>contracts/A.sol\<close>.
\<close>

definition libRemapping :: ResolvedUserRemapping where
  "libRemapping =
     \<lparr>rm_context = ''project/'', rm_prefix = ''lib/'', rm_target = ''project/contracts/'',
      originalFormat = ''lib/=contracts/'', source = ''/p/remappings.txt'',
      targetNpmPackage = None\<rparr>"

definition remapEnv :: Env where
  "remapEnv =
     \<lparr>readJsonFile = (\<lambda>p. if p = ''/p/package.json'' then Some demoPackageJson else None),
      readUtf8File =
        (\<lambda>p. if p = ''/p/remappings.txt'' then Some ''lib/=contracts/''
             else if p = ''/p/contracts/A.sol'' \<or> p = ''/p/contracts/B.sol''
             then Some ''contract C {}''
             else if p = ''/p/project/contracts/B.sol'' then Some ''contract Other {}''
             else None),
      getAllFilesMatching =
        (\<lambda>dir matches dirFilter. if dir = ''/p'' then [''/p/remappings.txt''] else []),
      findDependencyPackageJson = (\<lambda>from instName. None),
      exists =
        (\<lambda>p. p = ''/p/contracts/A.sol'' \<or> p = ''/p/contracts/B.sol'' \<or>
             p = ''/p/project/contracts/B.sol''),
      getFileTrueCase =
        (\<lambda>dir r.
           if dir = ''/p'' \<and> (r = ''contracts/A.sol'' \<or> r = ''contracts/a.sol'')
           then Some ''contracts/A.sol''
           else if dir = ''/p'' \<and> (r = ''contracts/B.sol'' \<or> r = ''contracts/b.sol'')
           then Some ''contracts/B.sol''
           else if dir = ''/p'' \<and> r = ''project/contracts/B.sol''
           then Some ''project/contracts/B.sol''
           else None),
      analyze = (\<lambda>txt. ([], [])),
      resolve_exports = (\<lambda>pkg subpath. ExportsThrows),
      formatRemapping = demoFormat\<rparr>"

definition remapMap :: RemappedNpmPackagesMap where
  "remapMap = plainMap\<lparr>userRemappingsPerPackage := [demoProject \<mapsto> [libRemapping]]\<rparr>"

definition remapResolver :: NewResolverImplementation where
  "remapResolver = internFile (sourceName fileA) fileA (newResolver ''/p'' remapMap)"

text \<open>The file that the import of \<^verbatim>\<open>lib/B.sol\<close> interns under
  \<^verbatim>\<open>project/contracts/B.sol\<close>.\<close>

definition otherB :: ResolvedFile where
  "otherB =
     \<lparr>file_ident = 2, file_type = PROJECT_FILE, sourceName = ''project/contracts/B.sol'',
      fsPath = ''/p/project/contracts/B.sol'',
      content = \<lparr>fc_text = ''contract Other {}'', importPaths = [], versionPragmas = []\<rparr>,
      file_package = demoProject\<rparr>"

section \<open>Installation edges and the steps of the map\<close>

text \<open>An installation edge: the package \<open>a\<close> has the package \<open>X\<close> installed under
  the installation name \<open>instName\<close>.\<close>

definition installationEdge ::
  "RemappedNpmPackagesMap \<Rightarrow> ResolvedNpmPackage \<Rightarrow> string \<Rightarrow> ResolvedNpmPackage \<Rightarrow> bool" where
  "installationEdge m a instName X =
     (\<exists>deps d. installationMap m a = Some deps \<and> deps instName = Some d \<and> dep_package d = X)"

text \<open>
  The two ways in which the validation of the remappings of a package \<open>p\<close> changes the
  map: it resolves a dependency of \<open>p\<close>, and it stores a remapping of \<open>p\<close> whose target
  package, if it has one, is at the end of an installation edge of \<open>p\<close>.
\<close>

inductive mapStep ::
  "Env \<Rightarrow> ResolvedNpmPackage \<Rightarrow> RemappedNpmPackagesMap \<Rightarrow> RemappedNpmPackagesMap \<Rightarrow> bool"
  for env :: Env and p :: ResolvedNpmPackage where
    resolved:
      "resolveDependencyByInstallationName_internal env p instName m = (r, m') \<Longrightarrow>
       mapStep env p m m'"
  | pushed:
      "userRemappingsPerPackage m p = Some remappings \<Longrightarrow>
       source r = src \<Longrightarrow>
       (\<And>t. targetNpmPackage r = Some t \<Longrightarrow>
          installationEdge m p (installationName t) (tnp_package t)) \<Longrightarrow>
       mapStep env p m (pushUserRemapping p remappings r m)"

text \<open>
  The packages that the map holds: the project package, the keys of the installation
  map, the values of the index by root source name, the ends of the installation edges,
  the queued packages, the packages whose remappings are stored, and the target packages
  of the stored remappings.
\<close>

definition edgeTargets :: "RemappedNpmPackagesMap \<Rightarrow> ResolvedNpmPackage set" where
  "edgeTargets m = {X. \<exists>a instName. installationEdge m a instName X}"

definition remappingTargets :: "RemappedNpmPackagesMap \<Rightarrow> ResolvedNpmPackage set" where
  "remappingTargets m =
     {X. \<exists>p remappings r t. userRemappingsPerPackage m p = Some remappings \<and>
           r \<in> set remappings \<and> targetNpmPackage r = Some t \<and> tnp_package t = X}"

definition heldPackages :: "RemappedNpmPackagesMap \<Rightarrow> ResolvedNpmPackage set" where
  "heldPackages m =
     {hardhatProjectPackage m} \<union> dom (installationMap m) \<union> ran (packageByRootSourceName m) \<union>
     edgeTargets m \<union> set (remappingsToResolve m) \<union> dom (userRemappingsPerPackage m) \<union>
     remappingTargets m"

text \<open>Every package that the map holds is the one the index gives for its root source
  name.\<close>

definition interned :: "RemappedNpmPackagesMap \<Rightarrow> bool" where
  "interned m =
     (\<forall>X \<in> heldPackages m. packageByRootSourceName m (rootSourceName X) = Some X)"

text \<open>
  The maps that a caller can observe: the map that \<^verbatim>\<open>create\<close> returns, and the maps
  that the public \<^verbatim>\<open>resolveDependencyByInstallationName\<close> leaves, whether it returns
  or throws.
\<close>

inductive reachableMap :: "Env \<Rightarrow> string \<Rightarrow> RemappedNpmPackagesMap \<Rightarrow> bool"
  for env :: Env and root :: string where
    created:
      "create env root = Some (Inr (Success m)) \<Longrightarrow> reachableMap env root m"
  | resolvedDependency:
      "reachableMap env root m \<Longrightarrow>
       resolveDependencyByInstallationName env from instName m = Some (r, m') \<Longrightarrow>
       reachableMap env root m'"

text \<open>
  The root source names that the map can give to the packages of a file system: the one
  of the project, and for every \<^verbatim>\<open>package.json\<close> that the lookup of a dependency can
  find, the ones made of its name with its version or with \<^verbatim>\<open>local\<close>.
\<close>

definition foundPackageJsons :: "Env \<Rightarrow> string set" where
  "foundPackageJsons env =
     {jsonPath. \<exists>from instName. findDependencyPackageJson env from instName = Some jsonPath}"

definition rootSourceNamesOf :: "Env \<Rightarrow> string set" where
  "rootSourceNamesOf env =
     insert HARDHAT_PROJECT_ROOT_SOURCE_NAME
       ((\<lambda>(jsonPath, isLocal).
           npmPackageToRootSourceName (pj_name (the (readJsonFile env jsonPath)))
             (if isLocal then ''local'' else pj_version (the (readJsonFile env jsonPath)))) `
        (foundPackageJsons env \<times> UNIV))"

text \<open>
  A file system that the map can read: the lookups of dependencies find finitely many
  \<^verbatim>\<open>package.json\<close> files, each of them can be read, and so can each
  \<^verbatim>\<open>remappings.txt\<close> that the enumeration of a package lists.
\<close>

definition readableFs :: "Env \<Rightarrow> bool" where
  "readableFs env =
     (finite (foundPackageJsons env) \<and>
      (\<forall>jsonPath \<in> foundPackageJsons env. readJsonFile env jsonPath \<noteq> None) \<and>
      (\<forall>p. \<forall>f \<in> set (remappingsTxtFiles env p). readUtf8File env f \<noteq> None))"

text \<open>The work that is left to the loop over the queue: the root source names not yet
  given to a package, and the packages in the queue.\<close>

definition pendingWork :: "Env \<Rightarrow> RemappedNpmPackagesMap \<Rightarrow> nat" where
  "pendingWork env m =
     card (rootSourceNamesOf env - dom (packageByRootSourceName m)) +
     length (remappingsToResolve m)"

text \<open>How the validation of remappings extends a map: the queue grows at its end by
  packages that are keys of the installation map, no key of the installation map or of
  the stored remappings is lost, and the pending work is the same.\<close>

definition extendsMap ::
  "Env \<Rightarrow> RemappedNpmPackagesMap \<Rightarrow> RemappedNpmPackagesMap \<Rightarrow> bool" where
  "extendsMap env m m' =
     (hardhatProjectPackage m' = hardhatProjectPackage m \<and>
      (\<exists>news. remappingsToResolve m' = remappingsToResolve m @ news \<and>
              set news \<subseteq> dom (installationMap m')) \<and>
      dom (installationMap m) \<subseteq> dom (installationMap m') \<and>
      dom (userRemappingsPerPackage m) \<subseteq> dom (userRemappingsPerPackage m') \<and>
      pendingWork env m' = pendingWork env m)"

text \<open>Every queued package is a key of the installation map.\<close>

definition queueInstalled :: "RemappedNpmPackagesMap \<Rightarrow> bool" where
  "queueInstalled m = (set (remappingsToResolve m) \<subseteq> dom (installationMap m))"

text \<open>The package record that \<^verbatim>\<open>create\<close> builds for the project.\<close>

definition projectPackageOf :: "string \<Rightarrow> PackageJson \<Rightarrow> ResolvedNpmPackage" where
  "projectPackageOf root projectPackageJson =
     \<lparr>pkg_ident = 0, name = pj_name projectPackageJson,
      version = pj_version projectPackageJson, rootFsPath = root,
      rootSourceName = HARDHAT_PROJECT_ROOT_SOURCE_NAME,
      exports = pj_exports projectPackageJson\<rparr>"

text \<open>The lines of a \<^verbatim>\<open>remappings.txt\<close> that are remappings (none if the file cannot be
  read), and the file and the line that a stored remapping records as its origin.\<close>

definition linesOf :: "Env \<Rightarrow> string \<Rightarrow> string list" where
  "linesOf env remappingsTxtFsPath =
     (case readUtf8File env remappingsTxtFsPath of
        None \<Rightarrow> []
      | Some contents \<Rightarrow> rawUserRemappings contents)"

definition originOf :: "ResolvedUserRemapping \<Rightarrow> string \<times> string" where
  "originOf r = (source r, originalFormat r)"

text \<open>
  Remappings stored file by file, in the order of the given files, and within a file in
  the order of its lines: their origins are, for each file in turn, the file paired with
  some of its lines in their order.
\<close>

definition inDiscoveryOrder ::
  "Env \<Rightarrow> string list \<Rightarrow> ResolvedUserRemapping list \<Rightarrow> bool" where
  "inDiscoveryOrder env files remappings =
     (\<exists>kept. list_all2 (\<lambda>f ls. subseq ls (linesOf env f)) files kept \<and>
             map originOf remappings = concat (map2 (\<lambda>f ls. map (Pair f) ls) files kept))"

text \<open>The remappings of every package are stored in discovery order.\<close>

definition ordered :: "Env \<Rightarrow> RemappedNpmPackagesMap \<Rightarrow> bool" where
  "ordered env m =
     (\<forall>p rems. userRemappingsPerPackage m p = Some rems \<longrightarrow>
        inDiscoveryOrder env (remappingsTxtFiles env p) rems)"

section \<open>Evaluating the concrete projects\<close>

lemma join_package_json: "path_join [''/p'', ''package.json''] = ''/p/package.json''"
  by code_simp

lemma create_plainEnv: "create plainEnv ''/p'' = Some (Inr (Success plainMap))"
  unfolding create_def resolveAnyRemainingRemappings_def join_package_json
  apply (simp add: plainEnv_def demoPackageJson_def newRemappedNpmPackagesMap_def
      insertNewPackage_def HARDHAT_PROJECT_ROOT_SOURCE_NAME_def Let_def)
  apply (subst resolveRemaining.simps)
  apply (simp add: validateAndResolveUserRemappingsOfAnExistingPackage_def remappingsTxtFiles_def
      startRemappings_def shiftQueue_def)
  apply (subst resolveRemaining.simps)
  apply (simp add: plainMap_def demoProject_def)
  done

lemma createResolver_plainEnv:
  "createResolver plainEnv ''/p'' = Some (Inr (Success (newResolver ''/p'' plainMap)))"
  by (simp add: createResolver_def create_plainEnv)

lemma resolveProjectFile_A:
  "fst (resolveProjectFile plainEnv ''/p/contracts/A.sol'' (newResolver ''/p'' plainMap)) =
     Inr (Success fileA)"
  by code_simp

section \<open>What a resolution of a dependency does to the map\<close>

lemma internal_cases [consumes 1, case_names unchanged existing loaded]:
  assumes run: "resolveDependencyByInstallationName_internal env from instName m = (r, m')"
  obtains
    "m' = m" "\<And>d. r = Inr (Some d) \<Longrightarrow>
        \<exists>deps. installationMap m from = Some deps \<and> deps instName = Some d"
  | deps to key where
      "installationMap m from = Some deps" "deps instName = None"
      "packageByRootSourceName m key = Some to"
      "r = Inr (Some (edgeTo from instName to))"
      "m' = setDependency from deps instName (edgeTo from instName to) m"
  | deps to jsonPath json where
      "installationMap m from = Some deps" "deps instName = None"
      "packageByRootSourceName m (rootSourceName to) = None"
      "pkg_ident to = nextPackageIdent m"
      "r = Inr (Some (edgeTo from instName to))"
      "m' = setDependency from deps instName (edgeTo from instName to)
              (insertNewPackage to (allocate m))"
      "findDependencyPackageJson env (rootFsPath from) instName = Some jsonPath"
      "readJsonFile env jsonPath = Some json"
      "to = newDependencyNpmPackage m jsonPath json"
proof (cases "installationMap m from")
  case None
  with run that(1) show ?thesis
    by (auto simp: resolveDependencyByInstallationName_internal_def)
next
  case deps: (Some deps)
  show ?thesis
  proof (cases "deps instName")
    case (Some d)
    with run deps that(1) show ?thesis
      by (auto simp: resolveDependencyByInstallationName_internal_def)
  next
    case noEdge: None
    show ?thesis
    proof (cases "findDependencyPackageJson env (rootFsPath from) instName")
      case None
      with run deps noEdge that(1) show ?thesis
        by (auto simp: resolveDependencyByInstallationName_internal_def)
    next
      case found: (Some jsonPath)
      show ?thesis
      proof (cases "readJsonFile env jsonPath")
        case None
        with run deps noEdge found that(1) show ?thesis
          by (auto simp: resolveDependencyByInstallationName_internal_def)
      next
        case json: (Some json)
        show ?thesis
        proof (cases "packageByRootSourceName m (dependencyRootSourceName m jsonPath json)")
          case (Some to)
          with run deps noEdge found json that(2) [of deps _ to] show ?thesis
            by (auto simp: resolveDependencyByInstallationName_internal_def)
        next
          case None
          have "rootSourceName (newDependencyNpmPackage m jsonPath json) =
              dependencyRootSourceName m jsonPath json"
            "pkg_ident (newDependencyNpmPackage m jsonPath json) = nextPackageIdent m"
            by (simp_all add: newDependencyNpmPackage_def)
          with None run deps noEdge found json
            that(3) [of deps "newDependencyNpmPackage m jsonPath json" jsonPath json]
          show ?thesis
            by (auto simp: resolveDependencyByInstallationName_internal_def Let_def)
        qed
      qed
    qed
  qed
qed

lemma internal_edge:
  assumes "resolveDependencyByInstallationName_internal env from instName m = (Inr (Some d), m')"
  shows "\<exists>deps. installationMap m' from = Some deps \<and> deps instName = Some d"
  using assms
  by (cases rule: internal_cases) (auto simp: setDependency_def)

lemma internal_installationEdge:
  assumes "resolveDependencyByInstallationName_internal env from instName m = (Inr (Some d), m')"
  shows "installationEdge m' from instName (dep_package d)"
  using internal_edge [OF assms] by (auto simp: installationEdge_def)

section \<open>The validation of a package is a sequence of steps\<close>

lemma pushUserRemapping_installationMap [simp]:
  "installationMap (pushUserRemapping p remappings r m) = installationMap m"
  by (simp add: pushUserRemapping_def)

lemma internal_userRemappings:
  assumes "resolveDependencyByInstallationName_internal env from instName m = (r, m')"
  shows "userRemappingsPerPackage m' = userRemappingsPerPackage m"
  using assms
  by (cases rule: internal_cases)
    (simp_all add: setDependency_def insertNewPackage_def allocate_def)

lemma validate_cases [consumes 1, case_names same local npmFailed npm]:
  assumes run: "validateAndResolveUserRemapping env p src line m = (r, m')"
  obtains
    "m' = m"
  | remappings remapping where
      "userRemappingsPerPackage m p = Some remappings"
      "parseRemappingString line = Some remapping"
      "r = Inr None"
      "m' = pushUserRemapping p remappings (localUserRemapping p src line remapping) m"
  | instName ri where
      "resolveDependencyByInstallationName_internal env p instName m = (ri, m')"
      "\<And>d. ri \<noteq> Inr (Some d)"
  | remappings remapping instName d mi where
      "userRemappingsPerPackage m p = Some remappings"
      "parseRemappingString line = Some remapping"
      "resolveDependencyByInstallationName_internal env p instName m = (Inr (Some d), mi)"
      "r = Inr None"
      "m' = pushUserRemapping p remappings
              (npmUserRemapping p src line remapping (strippedTarget remapping) instName d) mi"
proof (cases "installationMap m p")
  case None
  with run that(1) show ?thesis
    by (auto simp: validateAndResolveUserRemapping_def)
next
  case deps: (Some deps)
  show ?thesis
  proof (cases "userRemappingsPerPackage m p")
    case None
    with run deps that(1) show ?thesis
      by (auto simp: validateAndResolveUserRemapping_def)
  next
    case rems: (Some remappings)
    show ?thesis
    proof (cases "parseRemappingString line")
      case None
      with run deps rems that(1) show ?thesis
        by (auto simp: validateAndResolveUserRemapping_def)
    next
      case parsed: (Some remapping)
      consider (bad) "withoutSlashEndings remapping"
        | (loc) "\<not> withoutSlashEndings remapping"
            "\<not> startsWith (rm_target remapping) ''node_modules/''"
        | (nop) "\<not> withoutSlashEndings remapping"
            "startsWith (rm_target remapping) ''node_modules/''"
            "rm_prefix remapping = strippedTarget remapping"
        | (dep) "\<not> withoutSlashEndings remapping"
            "startsWith (rm_target remapping) ''node_modules/''"
            "rm_prefix remapping \<noteq> strippedTarget remapping"
        by blast
      then show ?thesis
      proof cases
        case bad
        with run deps rems parsed that(1) show ?thesis
          by (auto simp: validateAndResolveUserRemapping_def)
      next
        case loc
        with run deps rems parsed that(2) [of remappings remapping] show ?thesis
          by (auto simp: validateAndResolveUserRemapping_def)
      next
        case nop
        with run deps rems parsed that(1) show ?thesis
          by (auto simp: validateAndResolveUserRemapping_def)
      next
        case dep
        show ?thesis
        proof (cases "getNpmPackageName (strippedTarget remapping)")
          case None
          with run deps rems parsed dep that(1) show ?thesis
            by (auto simp: validateAndResolveUserRemapping_def)
        next
          case name: (Some instName)
          obtain ri mi where
            call: "resolveDependencyByInstallationName_internal env p instName m = (ri, mi)"
            by (cases "resolveDependencyByInstallationName_internal env p instName m")
          show ?thesis
          proof (cases "\<exists>d. ri = Inr (Some d)")
            case True
            then obtain d where "ri = Inr (Some d)" by blast
            with run deps rems parsed dep name call
              that(4) [of remappings remapping instName d mi]
            show ?thesis
              by (auto simp: validateAndResolveUserRemapping_def)
          next
            case False
            with run deps rems parsed dep name call that(3) [of instName ri]
            show ?thesis
              by (auto simp: validateAndResolveUserRemapping_def
                  split: sum.splits option.splits)
          qed
        qed
      qed
    qed
  qed
qed

lemma validate_steps:
  assumes "validateAndResolveUserRemapping env p src line m = (r, m')"
  shows "(mapStep env p)\<^sup>*\<^sup>* m m'"
  using assms
proof (cases rule: validate_cases)
  case same
  then show ?thesis by simp
next
  case (local remappings remapping)
  have "mapStep env p m (pushUserRemapping p remappings (localUserRemapping p src line remapping) m)"
    using local(1) by (rule mapStep.pushed [where src = src])
      (simp_all add: localUserRemapping_def)
  with local show ?thesis by auto
next
  case (npmFailed instName ri)
  then have "mapStep env p m m'" by (auto intro: mapStep.resolved)
  then show ?thesis by auto
next
  case (npm remappings remapping instName d mi)
  have first: "mapStep env p m mi"
    using npm(3) by (rule mapStep.resolved)
  have rems': "userRemappingsPerPackage mi p = Some remappings"
    using internal_userRemappings [OF npm(3)] npm(1) by simp
  have edge: "installationEdge mi p instName (dep_package d)"
    using npm(3) by (rule internal_installationEdge)
  have "mapStep env p mi m'"
    unfolding npm(5) using rems'
    by (rule mapStep.pushed [where src = src]) (simp_all add: npmUserRemapping_def edge)
  with first show ?thesis by auto
qed

lemma validateLines_steps:
  assumes "validateLines env p src lines errors m = (r, m')"
  shows "(mapStep env p)\<^sup>*\<^sup>* m m'"
  using assms
proof (induction lines arbitrary: errors m)
  case Nil
  then show ?case by simp
next
  case (Cons line rest)
  obtain r1 m1 where one: "validateAndResolveUserRemapping env p src line m = (r1, m1)"
    by (cases "validateAndResolveUserRemapping env p src line m")
  have first: "(mapStep env p)\<^sup>*\<^sup>* m m1"
    using one by (rule validate_steps)
  show ?case
  proof (cases r1)
    case (Inl e)
    with Cons.prems one first show ?thesis by simp
  next
    case (Inr result)
    with Cons.prems one have "\<exists>errors'. validateLines env p src rest errors' m1 = (r, m')"
      by (cases result) auto
    then obtain errors' where "validateLines env p src rest errors' m1 = (r, m')" ..
    then have "(mapStep env p)\<^sup>*\<^sup>* m1 m'" by (rule Cons.IH)
    with first show ?thesis by simp
  qed
qed

lemma validateFiles_steps:
  assumes "validateFiles env p files errors m = (r, m')"
  shows "(mapStep env p)\<^sup>*\<^sup>* m m'"
  using assms
proof (induction files arbitrary: errors m)
  case Nil
  then show ?case by simp
next
  case (Cons remappingsTxt rest)
  show ?case
  proof (cases "readUtf8File env remappingsTxt")
    case None
    with Cons.prems show ?thesis by simp
  next
    case (Some contents)
    obtain r1 m1 where
      one: "validateLines env p remappingsTxt (rawUserRemappings contents) errors m = (r1, m1)"
      by (cases "validateLines env p remappingsTxt (rawUserRemappings contents) errors m")
    have first: "(mapStep env p)\<^sup>*\<^sup>* m m1"
      using one by (rule validateLines_steps)
    show ?thesis
    proof (cases r1)
      case (Inl e)
      with Cons.prems Some one first show ?thesis by simp
    next
      case (Inr errors')
      with Cons.prems Some one have "validateFiles env p rest errors' m1 = (r, m')"
        by simp
      then have "(mapStep env p)\<^sup>*\<^sup>* m1 m'" by (rule Cons.IH)
      with first show ?thesis by simp
    qed
  qed
qed

lemma validatePackage_steps:
  assumes "validateAndResolveUserRemappingsOfAnExistingPackage env p m = (r, m')"
  shows "(mapStep env p)\<^sup>*\<^sup>* m m'"
proof (cases "userRemappingsPerPackage m p")
  case None
  with assms show ?thesis
    by (simp add: validateAndResolveUserRemappingsOfAnExistingPackage_def)
next
  case (Some remappings)
  with assms have "validateFiles env p (remappingsTxtFiles env p) [] m = (r, m')"
    by (simp add: validateAndResolveUserRemappingsOfAnExistingPackage_def)
  then show ?thesis by (rule validateFiles_steps)
qed

section \<open>Induction over the runs of the queue\<close>

lemma resolveRemaining_induct [consumes 1, case_names drained thrown continued]:
  assumes run: "resolveRemaining env errors m = Some y"
    and drained: "\<And>errors m. remappingsToResolve m = [] \<Longrightarrow> P errors m (Inr errors, m)"
    and thrown: "\<And>errors m p queued e m1.
        remappingsToResolve m = p # queued \<Longrightarrow>
        validateAndResolveUserRemappingsOfAnExistingPackage env p (startRemappings p m) =
          (Inl e, m1) \<Longrightarrow>
        P errors m (Inl e, m1)"
    and continued: "\<And>errors m p queued errs m1 y.
        remappingsToResolve m = p # queued \<Longrightarrow>
        validateAndResolveUserRemappingsOfAnExistingPackage env p (startRemappings p m) =
          (Inr errs, m1) \<Longrightarrow>
        resolveRemaining env (errors @ errs) (shiftQueue m1) = Some y \<Longrightarrow>
        P (errors @ errs) (shiftQueue m1) y \<Longrightarrow>
        P errors m y"
  shows "P errors m y"
proof -
  have "env = env \<longrightarrow> resolveRemaining env errors m = Some y \<and> P errors m y"
  proof (rule resolveRemaining.raw_induct
      [where P = "\<lambda>e errors m y. e = env \<longrightarrow> resolveRemaining env errors m = Some y \<and> P errors m y",
        OF _ run], intro impI)
    fix drain e errors m y
    assume IH: "\<And>e errors m y. drain e errors m = Some y \<Longrightarrow>
        e = env \<longrightarrow> resolveRemaining env errors m = Some y \<and> P errors m y"
      and body: "(case remappingsToResolve m of
          [] \<Rightarrow> Some (Inr errors, m)
        | npmPackage # queued \<Rightarrow>
            (case validateAndResolveUserRemappingsOfAnExistingPackage e npmPackage
                    (startRemappings npmPackage m) of
               (Inl e, m') \<Rightarrow> Some (Inl e, m')
             | (Inr userRemappingErrors, m') \<Rightarrow>
                 drain e (errors @ userRemappingErrors) (shiftQueue m'))) = Some y"
      and e: "e = env"
    show "resolveRemaining env errors m = Some y \<and> P errors m y"
    proof (cases "remappingsToResolve m")
      case Nil
      with body drained [OF Nil, of errors] show ?thesis
        by (subst resolveRemaining.simps) auto
    next
      case (Cons p queued)
      obtain r1 m1 where
        one: "validateAndResolveUserRemappingsOfAnExistingPackage env p (startRemappings p m) =
          (r1, m1)"
        by (cases "validateAndResolveUserRemappingsOfAnExistingPackage env p (startRemappings p m)")
      show ?thesis
      proof (cases r1)
        case (Inl ex)
        with body Cons one e thrown [OF Cons, of ex m1 errors] show ?thesis
          by (subst resolveRemaining.simps) auto
      next
        case (Inr errs)
        with body Cons one e have "drain env (errors @ errs) (shiftQueue m1) = Some y"
          by simp
        from IH [OF this] have rec: "resolveRemaining env (errors @ errs) (shiftQueue m1) = Some y"
          and P: "P (errors @ errs) (shiftQueue m1) y"
          by simp_all
        have "P errors m y"
          using Cons one [unfolded Inr] rec P by (rule continued)
        moreover have "resolveRemaining env errors m = Some y"
          using Cons one Inr rec by (subst resolveRemaining.simps) simp
        ultimately show ?thesis by simp
      qed
    qed
  qed
  then show ?thesis by simp
qed

section \<open>The validation of remappings extends the map\<close>

lemma finite_rootSourceNamesOf:
  assumes "readableFs env"
  shows "finite (rootSourceNamesOf env)"
  using assms unfolding readableFs_def rootSourceNamesOf_def by simp

lemma newDependency_rootSourceName:
  assumes "findDependencyPackageJson env from instName = Some jsonPath"
    and "readJsonFile env jsonPath = Some json"
  shows "rootSourceName (newDependencyNpmPackage m jsonPath json) \<in> rootSourceNamesOf env"
proof -
  have found: "jsonPath \<in> foundPackageJsons env"
    using assms(1) unfolding foundPackageJsons_def by blast
  show ?thesis
  proof (cases "jsonPath = path_join [rootFsPath (hardhatProjectPackage m), ''package.json'']")
    case True
    then show ?thesis
      by (simp add: newDependencyNpmPackage_def dependencyRootSourceName_def
          rootSourceNamesOf_def)
  next
    case False
    have "npmPackageToRootSourceName (pj_name json) (dependencyVersionOf m jsonPath json) =
        (\<lambda>(jsonPath, isLocal).
           npmPackageToRootSourceName (pj_name (the (readJsonFile env jsonPath)))
             (if isLocal then ''local'' else pj_version (the (readJsonFile env jsonPath))))
          (jsonPath, isPackageJsonFromMonorepo m jsonPath)"
      using assms(2) by (simp add: dependencyVersionOf_def)
    also have "\<dots> \<in> rootSourceNamesOf env"
      unfolding rootSourceNamesOf_def using found by blast
    finally show ?thesis
      using False
      by (simp add: newDependencyNpmPackage_def dependencyRootSourceName_def)
  qed
qed

lemma extendsMap_refl: "extendsMap env m m"
  by (simp add: extendsMap_def)

lemma extendsMap_trans:
  assumes "extendsMap env m m1" and "extendsMap env m1 m2"
  shows "extendsMap env m m2"
proof -
  from assms obtain n1 n2 where
    q1: "remappingsToResolve m1 = remappingsToResolve m @ n1"
    and s1: "set n1 \<subseteq> dom (installationMap m1)"
    and q2: "remappingsToResolve m2 = remappingsToResolve m1 @ n2"
    and s2: "set n2 \<subseteq> dom (installationMap m2)"
    unfolding extendsMap_def by blast
  have i1: "dom (installationMap m) \<subseteq> dom (installationMap m1)"
    and i2: "dom (installationMap m1) \<subseteq> dom (installationMap m2)"
    and u1: "dom (userRemappingsPerPackage m) \<subseteq> dom (userRemappingsPerPackage m1)"
    and u2: "dom (userRemappingsPerPackage m1) \<subseteq> dom (userRemappingsPerPackage m2)"
    and h: "hardhatProjectPackage m2 = hardhatProjectPackage m"
    and w: "pendingWork env m2 = pendingWork env m"
    using assms unfolding extendsMap_def by simp_all
  have q: "remappingsToResolve m2 = remappingsToResolve m @ (n1 @ n2)"
    using q1 q2 by simp
  have s: "set (n1 @ n2) \<subseteq> dom (installationMap m2)"
    using s1 s2 i2 by (simp add: subset_trans)
  have i: "dom (installationMap m) \<subseteq> dom (installationMap m2)"
    using i1 i2 by (rule subset_trans)
  have u: "dom (userRemappingsPerPackage m) \<subseteq> dom (userRemappingsPerPackage m2)"
    using u1 u2 by (rule subset_trans)
  show ?thesis
    unfolding extendsMap_def using h q s i u w by blast
qed

lemma extendsMap_mapStep:
  assumes "mapStep env p m m'" and fin: "finite (rootSourceNamesOf env)"
  shows "extendsMap env m m'"
  using assms(1)
proof cases
  case (resolved instName r)
  then show ?thesis
  proof (cases rule: internal_cases)
    case unchanged
    then show ?thesis by (simp add: extendsMap_refl)
  next
    case (existing deps to key)
    then show ?thesis
      unfolding extendsMap_def pendingWork_def
      by (auto simp: setDependency_def)
  next
    case (loaded deps to jsonPath json)
    have key: "rootSourceName to \<in> rootSourceNamesOf env - dom (packageByRootSourceName m)"
      using newDependency_rootSourceName [OF loaded(7,8)] loaded(3,9) by auto
    have "rootSourceNamesOf env - dom ((packageByRootSourceName m)(rootSourceName to \<mapsto> to)) =
        (rootSourceNamesOf env - dom (packageByRootSourceName m)) - {rootSourceName to}"
      by auto
    then have "card (rootSourceNamesOf env -
        dom ((packageByRootSourceName m)(rootSourceName to \<mapsto> to))) =
        card (rootSourceNamesOf env - dom (packageByRootSourceName m)) - 1"
      using key fin by (simp add: card_Diff_singleton)
    moreover have "card (rootSourceNamesOf env - dom (packageByRootSourceName m)) > 0"
      using key fin by (metis card_gt_0_iff empty_iff finite_Diff)
    ultimately have work: "pendingWork env m' = pendingWork env m"
      unfolding loaded(6) pendingWork_def
      by (simp add: setDependency_def insertNewPackage_def allocate_def)
    show ?thesis
      unfolding extendsMap_def
    proof (intro conjI)
      show "\<exists>news. remappingsToResolve m' = remappingsToResolve m @ news \<and>
          set news \<subseteq> dom (installationMap m')"
        unfolding loaded(6)
        by (rule exI [of _ "[to]"])
          (simp add: setDependency_def insertNewPackage_def allocate_def)
    qed (use work in \<open>auto simp: loaded(6) setDependency_def insertNewPackage_def allocate_def\<close>)
  qed
next
  case (pushed remappings r src)
  then show ?thesis
    unfolding extendsMap_def pendingWork_def
    by (auto simp: pushUserRemapping_def)
qed

lemma extendsMap_steps:
  assumes "(mapStep env p)\<^sup>*\<^sup>* m m'" and "finite (rootSourceNamesOf env)"
  shows "extendsMap env m m'"
  using assms
  by (induction rule: rtranclp_induct)
    (auto intro: extendsMap_refl extendsMap_trans extendsMap_mapStep)

section \<open>The loop over the queue returns on a readable file system\<close>

lemma internal_returns:
  assumes "readableFs env" and "installationMap m p \<noteq> None"
    and "resolveDependencyByInstallationName_internal env p instName m = (r, m')"
  shows "r \<noteq> Inl e"
proof -
  have "\<And>jsonPath. findDependencyPackageJson env (rootFsPath p) instName = Some jsonPath \<Longrightarrow>
      readJsonFile env jsonPath \<noteq> None"
    using assms(1) unfolding readableFs_def foundPackageJsons_def by blast
  with assms(2,3) show ?thesis
    unfolding resolveDependencyByInstallationName_internal_def Let_def
    by (auto split: option.splits)
qed

lemma validate_returns:
  assumes "readableFs env" and "installationMap m p \<noteq> None"
    and "userRemappingsPerPackage m p \<noteq> None"
    and "validateAndResolveUserRemapping env p src line m = (r, m')"
  shows "r \<noteq> Inl e"
proof -
  have "\<And>instName mi. resolveDependencyByInstallationName_internal env p instName m \<noteq>
      (Inl e, mi)"
    using internal_returns [OF assms(1,2)] by blast
  with assms(2-4) show ?thesis
    unfolding validateAndResolveUserRemapping_def
    by (auto split: option.splits if_splits prod.splits sum.splits)
qed

lemma steps_keep:
  assumes "(mapStep env p)\<^sup>*\<^sup>* m m'" and "readableFs env"
    and "installationMap m q \<noteq> None" and "userRemappingsPerPackage m q \<noteq> None"
  shows "installationMap m' q \<noteq> None \<and> userRemappingsPerPackage m' q \<noteq> None"
  using extendsMap_steps [OF assms(1) finite_rootSourceNamesOf [OF assms(2)]] assms(3,4)
  unfolding extendsMap_def by blast

lemma validateLines_returns:
  assumes "readableFs env"
    and "installationMap m p \<noteq> None" and "userRemappingsPerPackage m p \<noteq> None"
    and "validateLines env p src lines errors m = (r, m')"
  shows "r \<noteq> Inl e"
  using assms(2-4)
proof (induction lines arbitrary: errors m)
  case Nil
  then show ?case by auto
next
  case (Cons line rest)
  obtain r1 m1 where one: "validateAndResolveUserRemapping env p src line m = (r1, m1)"
    by (cases "validateAndResolveUserRemapping env p src line m")
  have "r1 \<noteq> Inl e" for e
    using validate_returns [OF assms(1) Cons.prems(1,2) one] .
  then obtain result where r1: "r1 = Inr result"
    by (cases r1) auto
  have keep: "installationMap m1 p \<noteq> None" "userRemappingsPerPackage m1 p \<noteq> None"
    using steps_keep [OF validate_steps [OF one] assms(1) Cons.prems(1,2)] by simp_all
  from Cons.prems(3) one r1 obtain errors' where
    "validateLines env p src rest errors' m1 = (r, m')"
    by (cases result) auto
  with keep show ?case by (rule Cons.IH)
qed

lemma validateFiles_returns:
  assumes "readableFs env"
    and "set files \<subseteq> set (remappingsTxtFiles env p)"
    and "installationMap m p \<noteq> None" and "userRemappingsPerPackage m p \<noteq> None"
    and "validateFiles env p files errors m = (r, m')"
  shows "r \<noteq> Inl e"
  using assms(2-5)
proof (induction files arbitrary: errors m)
  case Nil
  then show ?case by auto
next
  case (Cons remappingsTxt rest)
  have "readUtf8File env remappingsTxt \<noteq> None"
    using assms(1) Cons.prems(1) unfolding readableFs_def by auto
  then obtain contents where contents: "readUtf8File env remappingsTxt = Some contents"
    by auto
  obtain r1 m1 where
    one: "validateLines env p remappingsTxt (rawUserRemappings contents) errors m = (r1, m1)"
    by (cases "validateLines env p remappingsTxt (rawUserRemappings contents) errors m")
  have "r1 \<noteq> Inl e" for e
    using validateLines_returns [OF assms(1) Cons.prems(2,3) one] .
  then obtain errors' where r1: "r1 = Inr errors'"
    by (cases r1) auto
  have keep: "installationMap m1 p \<noteq> None" "userRemappingsPerPackage m1 p \<noteq> None"
    using steps_keep [OF validateLines_steps [OF one] assms(1) Cons.prems(2,3)] by simp_all
  have "validateFiles env p rest errors' m1 = (r, m')"
    using Cons.prems(4) contents one r1 by simp
  with Cons.prems(1) keep show ?case
    by (intro Cons.IH [of m1 errors']) auto
qed

lemma validatePackage_returns:
  assumes "readableFs env"
    and "installationMap m p \<noteq> None" and "userRemappingsPerPackage m p \<noteq> None"
  shows "\<exists>errors m'. validateAndResolveUserRemappingsOfAnExistingPackage env p m =
           (Inr errors, m')"
proof -
  obtain r m' where
    run: "validateFiles env p (remappingsTxtFiles env p) [] m = (r, m')"
    by (cases "validateFiles env p (remappingsTxtFiles env p) [] m")
  have "r \<noteq> Inl e" for e
    using validateFiles_returns [OF assms(1) _ assms(2,3) run] by simp
  then obtain errors where "r = Inr errors"
    by (cases r) auto
  with run assms(3) show ?thesis
    unfolding validateAndResolveUserRemappingsOfAnExistingPackage_def by auto
qed

lemma resolveRemaining_returns_aux:
  assumes "readableFs env"
  shows "queueInstalled m \<Longrightarrow> pendingWork env m = n \<Longrightarrow>
    \<exists>errors' m'. resolveRemaining env errors m = Some (Inr errors', m')"
proof (induction n arbitrary: m errors rule: less_induct)
  case (less n)
  show ?case
  proof (cases "remappingsToResolve m")
    case Nil
    then show ?thesis
      by (subst resolveRemaining.simps) simp
  next
    case (Cons p queued)
    let ?m0 = "startRemappings p m"
    have inst: "installationMap ?m0 p \<noteq> None"
      using less.prems(1) Cons unfolding queueInstalled_def startRemappings_def by auto
    have rems: "userRemappingsPerPackage ?m0 p \<noteq> None"
      by (simp add: startRemappings_def)
    from validatePackage_returns [OF assms inst rems] obtain errs m1 where
      run: "validateAndResolveUserRemappingsOfAnExistingPackage env p ?m0 = (Inr errs, m1)"
      by blast
    have ext: "extendsMap env ?m0 m1"
      using validatePackage_steps [OF run] finite_rootSourceNamesOf [OF assms]
      by (rule extendsMap_steps)
    then obtain news where
      queue: "remappingsToResolve m1 = (p # queued) @ news"
      and news: "set news \<subseteq> dom (installationMap m1)"
      and doms: "dom (installationMap ?m0) \<subseteq> dom (installationMap m1)"
      and work: "pendingWork env m1 = pendingWork env ?m0"
      unfolding extendsMap_def using Cons by (auto simp: startRemappings_def)
    have work0: "pendingWork env ?m0 = n"
      using less.prems(2) by (simp add: pendingWork_def startRemappings_def)
    have smaller: "pendingWork env (shiftQueue m1) < n"
      using work work0 queue by (simp add: pendingWork_def shiftQueue_def)
    have "set queued \<subseteq> dom (installationMap ?m0)"
      using less.prems(1) Cons
      unfolding queueInstalled_def startRemappings_def by auto
    with doms have "set queued \<subseteq> dom (installationMap m1)"
      by blast
    with news queue have installed: "queueInstalled (shiftQueue m1)"
      unfolding queueInstalled_def shiftQueue_def by auto
    from less.IH [OF smaller installed refl, of "errors @ errs"] obtain errors' m' where
      "resolveRemaining env (errors @ errs) (shiftQueue m1) = Some (Inr errors', m')"
      by blast
    with Cons run show ?thesis
      by (subst resolveRemaining.simps) simp
  qed
qed

lemma resolveRemaining_returns:
  assumes "readableFs env" and "queueInstalled m"
  shows "\<exists>errors' m'. resolveRemaining env errors m = Some (Inr errors', m')"
  using resolveRemaining_returns_aux [OF assms refl] .

section \<open>Errors collected by the loop over the queue\<close>

lemma validateLines_errors_grow:
  assumes "validateLines env p src lines errors m = (Inr errors', m')"
  shows "set errors \<subseteq> set errors'"
  using assms
proof (induction lines arbitrary: errors m)
  case Nil
  then show ?case by simp
next
  case (Cons line rest)
  obtain r1 m1 where one: "validateAndResolveUserRemapping env p src line m = (r1, m1)"
    by (cases "validateAndResolveUserRemapping env p src line m")
  show ?case
  proof (cases r1)
    case (Inl e)
    with Cons.prems one show ?thesis by simp
  next
    case (Inr result)
    show ?thesis
    proof (cases result)
      case None
      with Cons.prems one Inr have "validateLines env p src rest errors m1 = (Inr errors', m')"
        by simp
      then show ?thesis by (rule Cons.IH)
    next
      case (Some err)
      with Cons.prems one Inr have
        "validateLines env p src rest (errors @ [err]) m1 = (Inr errors', m')"
        by simp
      from Cons.IH [OF this] show ?thesis by simp
    qed
  qed
qed

lemma validateLines_reports:
  assumes rejected: "\<forall>m result m'.
      validateAndResolveUserRemapping env p src bad m = (Inr result, m')
      \<longrightarrow> result = Some err"
    and "bad \<in> set lines"
    and "validateLines env p src lines errors m = (Inr errors', m')"
  shows "err \<in> set errors'"
  using assms(2,3)
proof (induction lines arbitrary: errors m)
  case Nil
  then show ?case by simp
next
  case (Cons line rest)
  obtain r1 m1 where one: "validateAndResolveUserRemapping env p src line m = (r1, m1)"
    by (cases "validateAndResolveUserRemapping env p src line m")
  show ?case
  proof (cases r1)
    case (Inl e)
    with Cons.prems one show ?thesis by simp
  next
    case (Inr result)
    from Cons.prems(2) one Inr obtain errors1 where
      rest: "validateLines env p src rest errors1 m1 = (Inr errors', m')"
      and errors1: "errors1 = (case result of None \<Rightarrow> errors | Some e \<Rightarrow> errors @ [e])"
      by (cases result) auto
    show ?thesis
    proof (cases "line = bad")
      case True
      with one Inr rejected have "result = Some err" by blast
      with errors1 have "err \<in> set errors1" by simp
      with validateLines_errors_grow [OF rest] show ?thesis by blast
    next
      case False
      with Cons.prems(1) have "bad \<in> set rest" by simp
      then show ?thesis using rest by (rule Cons.IH)
    qed
  qed
qed

lemma validateFiles_errors_grow:
  assumes "validateFiles env p files errors m = (Inr errors', m')"
  shows "set errors \<subseteq> set errors'"
  using assms
proof (induction files arbitrary: errors m)
  case Nil
  then show ?case by simp
next
  case (Cons remappingsTxt rest)
  show ?case
  proof (cases "readUtf8File env remappingsTxt")
    case None
    with Cons.prems show ?thesis by simp
  next
    case (Some contents)
    obtain r1 m1 where
      one: "validateLines env p remappingsTxt (rawUserRemappings contents) errors m = (r1, m1)"
      by (cases "validateLines env p remappingsTxt (rawUserRemappings contents) errors m")
    show ?thesis
    proof (cases r1)
      case (Inl e)
      with Cons.prems Some one show ?thesis by simp
    next
      case (Inr errors1)
      with Cons.prems Some one have "validateFiles env p rest errors1 m1 = (Inr errors', m')"
        by simp
      from Cons.IH [OF this] validateLines_errors_grow [OF one [unfolded Inr]]
      show ?thesis by blast
    qed
  qed
qed

lemma validateFiles_reports:
  assumes rejected: "\<forall>m result m'.
      validateAndResolveUserRemapping env p src bad m = (Inr result, m')
      \<longrightarrow> result = Some err"
    and "src \<in> set files"
    and "readUtf8File env src = Some contents"
    and "bad \<in> set (rawUserRemappings contents)"
    and "validateFiles env p files errors m = (Inr errors', m')"
  shows "err \<in> set errors'"
  using assms(2,5)
proof (induction files arbitrary: errors m)
  case Nil
  then show ?case by simp
next
  case (Cons remappingsTxt rest)
  show ?case
  proof (cases "readUtf8File env remappingsTxt")
    case None
    with Cons.prems show ?thesis by simp
  next
    case (Some contents1)
    obtain r1 m1 where
      one: "validateLines env p remappingsTxt (rawUserRemappings contents1) errors m = (r1, m1)"
      by (cases "validateLines env p remappingsTxt (rawUserRemappings contents1) errors m")
    show ?thesis
    proof (cases r1)
      case (Inl e)
      with Cons.prems Some one show ?thesis by simp
    next
      case (Inr errors1)
      with Cons.prems(2) Some one have
        rest: "validateFiles env p rest errors1 m1 = (Inr errors', m')"
        by simp
      show ?thesis
      proof (cases "remappingsTxt = src")
        case True
        with Some assms(3) have "contents1 = contents" by simp
        with one Inr True have
          "validateLines env p src (rawUserRemappings contents) errors m = (Inr errors1, m1)"
          by simp
        with rejected assms(4) have "err \<in> set errors1"
          by (rule validateLines_reports)
        with validateFiles_errors_grow [OF rest] show ?thesis by blast
      next
        case False
        with Cons.prems(1) have "src \<in> set rest" by simp
        then show ?thesis using rest by (rule Cons.IH)
      qed
    qed
  qed
qed

lemma validatePackage_reports:
  assumes "\<forall>m result m'.
      validateAndResolveUserRemapping env p src bad m = (Inr result, m')
      \<longrightarrow> result = Some err"
    and "src \<in> set (remappingsTxtFiles env p)"
    and "readUtf8File env src = Some contents"
    and "bad \<in> set (rawUserRemappings contents)"
    and "validateAndResolveUserRemappingsOfAnExistingPackage env p m = (Inr errors', m')"
  shows "err \<in> set errors'"
proof -
  from assms(5) have "validateFiles env p (remappingsTxtFiles env p) [] m = (Inr errors', m')"
    unfolding validateAndResolveUserRemappingsOfAnExistingPackage_def
    by (auto split: option.splits)
  with assms(1-4) show ?thesis by (rule validateFiles_reports)
qed

lemma resolveRemaining_reports_aux:
  assumes rejected: "\<forall>m result m'.
      validateAndResolveUserRemapping env p src bad m = (Inr result, m')
      \<longrightarrow> result = Some err"
    and src: "src \<in> set (remappingsTxtFiles env p)"
    and contents: "readUtf8File env src = Some contents"
    and bad: "bad \<in> set (rawUserRemappings contents)"
    and fin: "finite (rootSourceNamesOf env)"
    and run: "resolveRemaining env errors m = Some y"
  shows "\<forall>errors' m'. y = (Inr errors', m') \<longrightarrow>
           set errors \<subseteq> set errors' \<and> (p \<in> set (remappingsToResolve m) \<longrightarrow> err \<in> set errors')"
  using run
proof (induction rule: resolveRemaining_induct)
  case (drained errors m)
  then show ?case by simp
next
  case (thrown errors m q queued e m1)
  then show ?case by simp
next
  case (continued errors m q queued errs m1 y)
  show ?case
  proof (intro allI impI)
    fix errors' m' assume y: "y = (Inr errors', m')"
    with continued.IH have grow: "set (errors @ errs) \<subseteq> set errors'"
      and later: "p \<in> set (remappingsToResolve (shiftQueue m1)) \<longrightarrow> err \<in> set errors'"
      by simp_all
    have "extendsMap env (startRemappings q m) m1"
      using validatePackage_steps [OF continued(2)] fin by (rule extendsMap_steps)
    then obtain news where "remappingsToResolve m1 = (q # queued) @ news"
      unfolding extendsMap_def using continued(1) by (auto simp: startRemappings_def)
    then have queue: "remappingsToResolve (shiftQueue m1) = queued @ news"
      by (simp add: shiftQueue_def)
    have "err \<in> set errors'" if "p \<in> set (remappingsToResolve m)"
    proof (cases "p = q")
      case True
      with continued(2) have "err \<in> set errs"
        using validatePackage_reports [OF rejected src contents bad] by blast
      with grow show ?thesis by auto
    next
      case False
      with that continued(1) queue have "p \<in> set (remappingsToResolve (shiftQueue m1))"
        by simp
      with later show ?thesis by simp
    qed
    with grow show "set errors \<subseteq> set errors' \<and>
        (p \<in> set (remappingsToResolve m) \<longrightarrow> err \<in> set errors')"
      by simp
  qed
qed

text \<open>A line that the validation always answers with the error \<open>err\<close> is reported by
  every run of the queue that contains its package, and the run returns.\<close>

lemma run_reports:
  assumes rejected: "\<forall>m result m'.
      validateAndResolveUserRemapping env p src bad m = (Inr result, m')
      \<longrightarrow> result = Some err"
    and "src \<in> set (remappingsTxtFiles env p)"
    and "readUtf8File env src = Some contents"
    and "bad \<in> set (rawUserRemappings contents)"
    and readable: "readableFs env"
    and installed: "queueInstalled m"
    and queued: "p \<in> set (remappingsToResolve m)"
  shows "\<exists>errors' m'. resolveRemaining env errors m = Some (Inr errors', m') \<and> err \<in> set errors'"
proof -
  from resolveRemaining_returns [OF readable installed] obtain errors' m' where
    run: "resolveRemaining env errors m = Some (Inr errors', m')"
    by blast
  from resolveRemaining_reports_aux
    [OF assms(1-4) finite_rootSourceNamesOf [OF readable] run] queued
  have "err \<in> set errors'" by blast
  with run show ?thesis by blast
qed

lemma create_reports:
  assumes rejected: "\<forall>m result m'.
      validateAndResolveUserRemapping env (projectPackageOf root pj) src bad m = (Inr result, m')
      \<longrightarrow> result = Some err"
    and "src \<in> set (remappingsTxtFiles env (projectPackageOf root pj))"
    and "readUtf8File env src = Some contents"
    and "bad \<in> set (rawUserRemappings contents)"
    and readable: "readableFs env"
    and json: "readJsonFile env (path_join [root, ''package.json'']) = Some pj"
  shows "\<exists>errors. create env root = Some (Inr (Failure errors)) \<and> err \<in> set errors"
proof -
  let ?p = "projectPackageOf root pj"
  have "queueInstalled (newRemappedNpmPackagesMap ?p)"
    "?p \<in> set (remappingsToResolve (newRemappedNpmPackagesMap ?p))"
    by (simp_all add: queueInstalled_def newRemappedNpmPackagesMap_def insertNewPackage_def)
  from run_reports [OF assms(1-4) readable this, where errors = "[]"] obtain errors m' where
    "resolveRemaining env [] (newRemappedNpmPackagesMap ?p) = Some (Inr errors, m')"
    "err \<in> set errors"
    by blast
  then show ?thesis
    using json
    unfolding create_def resolveAnyRemainingRemappings_def Let_def projectPackageOf_def
    by (cases errors) auto
qed

section \<open>Lines that the validation rejects\<close>

lemma readableFs_remappingsEnv: "readableFs (remappingsEnv files)"
proof -
  have "foundPackageJsons (remappingsEnv files) = {}"
    by (simp add: foundPackageJsons_def remappingsEnv_def)
  moreover have "readUtf8File (remappingsEnv files) f \<noteq> None"
    if "f \<in> set (remappingsTxtFiles (remappingsEnv files) p)" for p f
  proof -
    from that have "f \<in> set (map fst files)"
      by (auto simp: remappingsTxtFiles_def remappingsEnv_def split: if_splits)
    then have "map_of files f \<noteq> None"
      by (simp add: map_of_eq_None_iff)
    then show ?thesis by (simp add: remappingsEnv_def)
  qed
  ultimately show ?thesis by (simp add: readableFs_def)
qed

lemma queueInstalled_new: "queueInstalled (newRemappedNpmPackagesMap p)"
  by (simp add: queueInstalled_def newRemappedNpmPackagesMap_def insertNewPackage_def)

lemma queue_new: "remappingsToResolve (newRemappedNpmPackagesMap p) = [p]"
  by (simp add: newRemappedNpmPackagesMap_def insertNewPackage_def)

lemma slash_rejected:
  assumes "parseRemappingString line = Some rm" and "withoutSlashEndings rm"
  shows "\<forall>m result m'.
      validateAndResolveUserRemapping env p src line m = (Inr result, m')
      \<longrightarrow> result = Some (userRemappingError ILLEGAL_REMAPPING_WIHTOUT_SLASH_ENDINGS line src)"
  using assms
  by (auto simp: validateAndResolveUserRemapping_def split: option.splits)

lemma npm_name_rejected:
  assumes "parseRemappingString line = Some rm" and "\<not> withoutSlashEndings rm"
    and "startsWith (rm_target rm) ''node_modules/''"
    and "rm_prefix rm \<noteq> strippedTarget rm"
    and "getNpmPackageName (strippedTarget rm) = None"
  shows "\<forall>m result m'.
      validateAndResolveUserRemapping env p src line m = (Inr result, m')
      \<longrightarrow> result = Some (userRemappingError REMAPPING_WITH_INVALID_SYNTAX line src)"
  using assms
  by (auto simp: validateAndResolveUserRemapping_def split: option.splits)

lemma create_demo:
  assumes "readJsonFile env ''/p/package.json'' = Some demoPackageJson"
  shows "create env ''/p'' =
     (case resolveAnyRemainingRemappings env (newRemappedNpmPackagesMap demoProject) of
        None \<Rightarrow> None
      | Some (Inl e, m) \<Rightarrow> Some (Inl e)
      | Some (Inr errors, m) \<Rightarrow>
          if length errors > 0 then Some (Inr (Failure errors)) else Some (Inr (Success m)))"
proof -
  have "path_join [''/p'', ''package.json''] = ''/p/package.json''"
    by code_simp
  with assms show ?thesis
    by (simp add: create_def demoProject_def demoPackageJson_def
        HARDHAT_PROJECT_ROOT_SOURCE_NAME_def)
qed


lemma validate_local:
  assumes "parseRemappingString line = Some rm" and "\<not> withoutSlashEndings rm"
    and "\<not> startsWith (rm_target rm) ''node_modules/''"
    and "installationMap m p = Some deps" and "userRemappingsPerPackage m p = Some rems"
  shows "validateAndResolveUserRemapping env p src line m =
     (Inr None, pushUserRemapping p rems (localUserRemapping p src line rm) m)"
  using assms by (simp add: validateAndResolveUserRemapping_def)

lemma localUserRemapping_root:
  assumes "rootFsPath p = rootFsPath q" and "rootSourceName p = rootSourceName q"
  shows "localUserRemapping p src line rm = localUserRemapping q src line rm"
  using assms
  by (simp add: localUserRemapping_def updateRemappingsTxFragment_def
      relativeFsPathToRemappingsFile_def)

text \<open>A no-break space around a line is trimmed like a space.\<close>

lemma trim_no_break_space:
  "rawUserRemappings (''foo/=bar/'' @ [CHR 0xA0]) = [''foo/=bar/'']"
  "rawUserRemappings ([CHR 0xA0] @ ''Foo/=node_modules/Foo/'') = [''Foo/=node_modules/Foo/'']"
  by code_simp+

section \<open>The order of the stored remappings\<close>

lemma validate_origin:
  assumes "validateAndResolveUserRemapping env p src line m = (r, m')"
    and "userRemappingsPerPackage m p = Some rems0"
  shows "userRemappingsPerPackage m' p = Some rems0 \<or>
         (\<exists>rr. userRemappingsPerPackage m' p = Some (rems0 @ [rr]) \<and> originOf rr = (src, line))"
  using assms(1)
proof (cases rule: validate_cases)
  case same
  with assms(2) show ?thesis by simp
next
  case (local remappings remapping)
  with assms(2) show ?thesis
    by (simp add: pushUserRemapping_def localUserRemapping_def originOf_def)
next
  case (npmFailed instName ri)
  with assms(2) internal_userRemappings [OF npmFailed(1)] show ?thesis by simp
next
  case (npm remappings remapping instName d mi)
  with assms(2) show ?thesis
    by (simp add: pushUserRemapping_def npmUserRemapping_def originOf_def)
qed

lemma validate_others:
  assumes "validateAndResolveUserRemapping env p src line m = (r, m')" and "q \<noteq> p"
  shows "userRemappingsPerPackage m' q = userRemappingsPerPackage m q"
  using assms(1)
proof (cases rule: validate_cases)
  case same
  then show ?thesis by simp
next
  case (local remappings remapping)
  with assms(2) show ?thesis by (simp add: pushUserRemapping_def)
next
  case (npmFailed instName ri)
  with internal_userRemappings [OF npmFailed(1)] show ?thesis by simp
next
  case (npm remappings remapping instName d mi)
  with assms(2) internal_userRemappings [OF npm(3)] show ?thesis
    by (simp add: pushUserRemapping_def)
qed

lemma validateLines_origin:
  assumes "validateLines env p src lines errors m = (r, m')"
    and "userRemappingsPerPackage m p = Some rems0"
  shows "\<exists>rems kept. userRemappingsPerPackage m' p = Some (rems0 @ rems) \<and>
           subseq kept lines \<and> map originOf rems = map (Pair src) kept"
  using assms
proof (induction lines arbitrary: errors m rems0)
  case Nil
  then show ?case by simp
next
  case (Cons line rest)
  obtain r1 m1 where one: "validateAndResolveUserRemapping env p src line m = (r1, m1)"
    by (cases "validateAndResolveUserRemapping env p src line m")
  from validate_origin [OF one Cons.prems(2)] consider
    (skipped) "userRemappingsPerPackage m1 p = Some rems0"
    | (stored) rr where "userRemappingsPerPackage m1 p = Some (rems0 @ [rr])"
      "originOf rr = (src, line)"
    by blast
  then show ?case
  proof cases
    case skipped
    show ?thesis
    proof (cases "\<exists>e. r1 = Inl e")
      case True
      with Cons.prems(1) one have "m' = m1" by auto
      with skipped have "userRemappingsPerPackage m' p = Some (rems0 @ [])"
        "subseq [] (line # rest)" "map originOf [] = map (Pair src) []"
        by simp_all
      then show ?thesis by blast
    next
      case False
      with Cons.prems(1) one obtain errors1 where
        "validateLines env p src rest errors1 m1 = (r, m')"
        by (cases r1; cases "projr r1") auto
      from Cons.IH [OF this skipped] obtain rems kept where
        "userRemappingsPerPackage m' p = Some (rems0 @ rems)" "subseq kept rest"
        "map originOf rems = map (Pair src) kept"
        by blast
      then have "userRemappingsPerPackage m' p = Some (rems0 @ rems)"
        "subseq kept (line # rest)" "map originOf rems = map (Pair src) kept"
        by (simp_all add: list_emb_Cons)
      then show ?thesis by blast
    qed
  next
    case stored
    show ?thesis
    proof (cases "\<exists>e. r1 = Inl e")
      case True
      with Cons.prems(1) one have "m' = m1" by auto
      with stored have "userRemappingsPerPackage m' p = Some (rems0 @ [rr])"
        "subseq [line] (line # rest)" "map originOf [rr] = map (Pair src) [line]"
        by simp_all
      then show ?thesis by blast
    next
      case False
      with Cons.prems(1) one obtain errors1 where
        "validateLines env p src rest errors1 m1 = (r, m')"
        by (cases r1; cases "projr r1") auto
      from Cons.IH [OF this stored(1)] obtain rems kept where
        "userRemappingsPerPackage m' p = Some ((rems0 @ [rr]) @ rems)" "subseq kept rest"
        "map originOf rems = map (Pair src) kept"
        by blast
      with stored(2) have "userRemappingsPerPackage m' p = Some (rems0 @ (rr # rems))"
        "subseq (line # kept) (line # rest)"
        "map originOf (rr # rems) = map (Pair src) (line # kept)"
        by simp_all
      then show ?thesis by blast
    qed
  qed
qed

lemma validateLines_others:
  assumes "validateLines env p src lines errors m = (r, m')" and "q \<noteq> p"
  shows "userRemappingsPerPackage m' q = userRemappingsPerPackage m q"
  using assms(1)
proof (induction lines arbitrary: errors m)
  case Nil
  then show ?case by simp
next
  case (Cons line rest)
  obtain r1 m1 where one: "validateAndResolveUserRemapping env p src line m = (r1, m1)"
    by (cases "validateAndResolveUserRemapping env p src line m")
  note first = validate_others [OF one assms(2)]
  show ?case
  proof (cases "\<exists>e. r1 = Inl e")
    case True
    with Cons.prems one have "m' = m1" by auto
    with first show ?thesis by simp
  next
    case False
    with Cons.prems one obtain errors1 where
      "validateLines env p src rest errors1 m1 = (r, m')"
      by (cases r1; cases "projr r1") auto
    from Cons.IH [OF this] first show ?thesis by simp
  qed
qed


lemma unread_files:
  "list_all2 (\<lambda>f ls. subseq ls (linesOf env f)) files (replicate (length files) []) \<and>
   concat (map2 (\<lambda>f ls. map (Pair f) ls) files (replicate (length files) [])) = []"
  by (induction files) simp_all

lemma validateFiles_origin:
  assumes "validateFiles env p files errors m = (r, m')"
    and "userRemappingsPerPackage m p = Some rems0"
  shows "\<exists>rems. userRemappingsPerPackage m' p = Some (rems0 @ rems) \<and>
           inDiscoveryOrder env files rems"
  using assms
proof (induction files arbitrary: errors m rems0)
  case Nil
  then show ?case by (simp add: inDiscoveryOrder_def)
next
  case (Cons remappingsTxt rest)
  show ?case
  proof (cases "readUtf8File env remappingsTxt")
    case None
    with Cons.prems have "userRemappingsPerPackage m' p = Some (rems0 @ [])" by simp
    moreover have "inDiscoveryOrder env (remappingsTxt # rest) []"
      unfolding inDiscoveryOrder_def
      using unread_files [of env "remappingsTxt # rest"]
      by (intro exI [of _ "replicate (length (remappingsTxt # rest)) []"]) simp
    ultimately show ?thesis by blast
  next
    case (Some contents)
    then have lines: "linesOf env remappingsTxt = rawUserRemappings contents"
      by (simp add: linesOf_def)
    obtain r1 m1 where
      one: "validateLines env p remappingsTxt (rawUserRemappings contents) errors m = (r1, m1)"
      by (cases "validateLines env p remappingsTxt (rawUserRemappings contents) errors m")
    from validateLines_origin [OF one Cons.prems(2)] lines obtain rems1 kept1 where
      first: "userRemappingsPerPackage m1 p = Some (rems0 @ rems1)"
        "subseq kept1 (linesOf env remappingsTxt)"
        "map originOf rems1 = map (Pair remappingsTxt) kept1"
      by auto
    show ?thesis
    proof (cases r1)
      case (Inl e)
      with Cons.prems(1) Some one have "m' = m1" by simp
      moreover have "inDiscoveryOrder env (remappingsTxt # rest) rems1"
        unfolding inDiscoveryOrder_def
        using first(2,3) unread_files [of env rest]
        by (intro exI [of _ "kept1 # replicate (length rest) []"]) simp
      ultimately show ?thesis using first(1) by blast
    next
      case (Inr errors1)
      with Cons.prems(1) Some one have "validateFiles env p rest errors1 m1 = (r, m')"
        by simp
      from Cons.IH [OF this first(1)] obtain rems2 where
        later: "userRemappingsPerPackage m' p = Some ((rems0 @ rems1) @ rems2)"
          "inDiscoveryOrder env rest rems2"
        by blast
      from later(2) obtain kept2 where
        "list_all2 (\<lambda>f ls. subseq ls (linesOf env f)) rest kept2"
        "map originOf rems2 = concat (map2 (\<lambda>f ls. map (Pair f) ls) rest kept2)"
        unfolding inDiscoveryOrder_def by blast
      with first(2,3) have "inDiscoveryOrder env (remappingsTxt # rest) (rems1 @ rems2)"
        unfolding inDiscoveryOrder_def
        by (intro exI [of _ "kept1 # kept2"]) simp
      with later(1) show ?thesis by auto
    qed
  qed
qed

lemma validateFiles_others:
  assumes "validateFiles env p files errors m = (r, m')" and "q \<noteq> p"
  shows "userRemappingsPerPackage m' q = userRemappingsPerPackage m q"
  using assms(1)
proof (induction files arbitrary: errors m)
  case Nil
  then show ?case by simp
next
  case (Cons remappingsTxt rest)
  show ?case
  proof (cases "readUtf8File env remappingsTxt")
    case None
    with Cons.prems show ?thesis by simp
  next
    case (Some contents)
    obtain r1 m1 where
      one: "validateLines env p remappingsTxt (rawUserRemappings contents) errors m = (r1, m1)"
      by (cases "validateLines env p remappingsTxt (rawUserRemappings contents) errors m")
    note first = validateLines_others [OF one assms(2)]
    show ?thesis
    proof (cases r1)
      case (Inl e)
      with Cons.prems Some one first show ?thesis by simp
    next
      case (Inr errors1)
      with Cons.prems Some one have "validateFiles env p rest errors1 m1 = (r, m')"
        by simp
      from Cons.IH [OF this] first show ?thesis by simp
    qed
  qed
qed

lemma validatePackage_ordered:
  assumes run: "validateAndResolveUserRemappingsOfAnExistingPackage env p (startRemappings p m) =
      (r, m')"
    and before: "ordered env m"
  shows "ordered env m'"
proof -
  let ?m = "startRemappings p m"
  have start: "userRemappingsPerPackage ?m p = Some []"
    by (simp add: startRemappings_def)
  with run have files: "validateFiles env p (remappingsTxtFiles env p) [] ?m = (r, m')"
    by (simp add: validateAndResolveUserRemappingsOfAnExistingPackage_def)
  show ?thesis
    unfolding ordered_def
  proof (intro allI impI)
    fix q rems assume stored: "userRemappingsPerPackage m' q = Some rems"
    show "inDiscoveryOrder env (remappingsTxtFiles env q) rems"
    proof (cases "q = p")
      case True
      with validateFiles_origin [OF files start] stored show ?thesis by auto
    next
      case False
      from validateFiles_others [OF files False] False
      have "userRemappingsPerPackage m' q = userRemappingsPerPackage m q"
        by (simp add: startRemappings_def)
      with stored before show ?thesis by (simp add: ordered_def)
    qed
  qed
qed

lemma resolveRemaining_ordered:
  assumes "resolveRemaining env errors m = Some (r, m')" and "ordered env m"
  shows "ordered env m'"
proof -
  have "ordered env m \<longrightarrow> ordered env (snd (r, m'))"
    using assms(1)
  proof (induction rule: resolveRemaining_induct)
    case (drained errors m)
    then show ?case by simp
  next
    case (thrown errors m p queued e m1)
    then show ?case using validatePackage_ordered by auto
  next
    case (continued errors m p queued errs m1 y)
    have "ordered env (shiftQueue m1)" if "ordered env m"
      using validatePackage_ordered [OF continued(2) that]
      by (simp add: ordered_def shiftQueue_def)
    with continued.IH show ?case by blast
  qed
  with assms(2) show ?thesis by simp
qed

lemma create_ordered:
  assumes "create env root = Some (Inr (Success m))"
  shows "ordered env m"
proof -
  from assms obtain projectPackage errors where
    "resolveRemaining env [] (newRemappedNpmPackagesMap projectPackage) = Some (Inr errors, m)"
    unfolding create_def resolveAnyRemainingRemappings_def Let_def
    by (auto split: option.splits sum.splits if_splits prod.splits)
  moreover have "ordered env (newRemappedNpmPackagesMap projectPackage)"
    by (simp add: ordered_def newRemappedNpmPackagesMap_def insertNewPackage_def)
  ultimately show ?thesis by (rule resolveRemaining_ordered)
qed

lemma public_resolve_ordered:
  assumes run: "resolveDependencyByInstallationName env from instName m = Some (r, m')"
    and before: "ordered env m"
  shows "ordered env m'"
proof -
  obtain ri mi where
    internal: "resolveDependencyByInstallationName_internal env from instName m = (ri, mi)"
    by (cases "resolveDependencyByInstallationName_internal env from instName m")
  from internal_userRemappings [OF internal] before have mid: "ordered env mi"
    by (simp add: ordered_def)
  show ?thesis
  proof (cases "\<exists>d. ri = Inr (Some d)")
    case False
    with run internal have "m' = mi"
      unfolding resolveDependencyByInstallationName_def
      by (cases ri; cases "projr ri") auto
    with mid show ?thesis by simp
  next
    case True
    with run internal obtain r2 where
      "resolveRemaining env [] mi = Some (r2, m')"
      unfolding resolveDependencyByInstallationName_def resolveAnyRemainingRemappings_def
      by (auto split: option.splits sum.splits prod.splits)
    then show ?thesis using mid by (rule resolveRemaining_ordered)
  qed
qed

lemma reachable_ordered:
  assumes "reachableMap env root m"
  shows "ordered env m"
  using assms
  by induction (auto intro: create_ordered public_resolve_ordered)

section \<open>One package per root source name\<close>

lemma interned_grow:
  assumes "interned m"
    and "heldPackages m' \<subseteq> heldPackages m \<union> S"
    and "\<And>X. X \<in> S \<Longrightarrow> packageByRootSourceName m' (rootSourceName X) = Some X"
    and "\<And>k X. packageByRootSourceName m k = Some X \<Longrightarrow> packageByRootSourceName m' k = Some X"
  shows "interned m'"
  using assms unfolding interned_def by blast

lemma edgeTargets_cong:
  "installationMap m' = installationMap m \<Longrightarrow> edgeTargets m' = edgeTargets m"
  by (simp add: edgeTargets_def installationEdge_def)

lemma remappingTargets_cong:
  "userRemappingsPerPackage m' = userRemappingsPerPackage m \<Longrightarrow>
     remappingTargets m' = remappingTargets m"
  by (simp add: remappingTargets_def)

lemma edge_setDependency:
  assumes "installationMap m a = Some deps"
    and "installationEdge (setDependency a deps instName (edgeTo a instName to) m) b n X"
  shows "X = to \<or> installationEdge m b n X"
  using assms
  unfolding setDependency_def installationEdge_def edgeTo_def
  by (cases "b = a"; cases "n = instName") auto

lemma edgeTargets_setDependency:
  assumes "installationMap m a = Some deps"
  shows "edgeTargets (setDependency a deps instName (edgeTo a instName to) m) \<subseteq>
           edgeTargets m \<union> {to}"
  using edge_setDependency [OF assms] unfolding edgeTargets_def by blast

lemma held_setDependency:
  assumes "installationMap m a = Some deps"
  shows "heldPackages (setDependency a deps instName (edgeTo a instName to) m) \<subseteq>
           heldPackages m \<union> {to}"
proof -
  let ?m' = "setDependency a deps instName (edgeTo a instName to) m"
  have "remappingTargets ?m' = remappingTargets m"
    by (rule remappingTargets_cong) (simp add: setDependency_def)
  moreover have "dom (installationMap ?m') = dom (installationMap m)"
    using assms by (auto simp: setDependency_def)
  moreover have "hardhatProjectPackage ?m' = hardhatProjectPackage m"
    "packageByRootSourceName ?m' = packageByRootSourceName m"
    "remappingsToResolve ?m' = remappingsToResolve m"
    "userRemappingsPerPackage ?m' = userRemappingsPerPackage m"
    by (simp_all add: setDependency_def)
  ultimately show ?thesis
    using edgeTargets_setDependency [OF assms, of instName to]
    unfolding heldPackages_def by auto
qed

lemma edge_insertNewPackage:
  assumes "installationEdge (insertNewPackage to (allocate m)) b n X"
  shows "installationEdge m b n X"
  using assms
  unfolding insertNewPackage_def allocate_def installationEdge_def
  by (cases "b = to") auto

lemma held_insertNewPackage:
  "heldPackages (insertNewPackage to (allocate m)) \<subseteq> heldPackages m \<union> {to}"
proof -
  let ?m' = "insertNewPackage to (allocate m)"
  have "remappingTargets ?m' = remappingTargets m"
    by (rule remappingTargets_cong) (simp add: insertNewPackage_def allocate_def)
  moreover have "edgeTargets ?m' \<subseteq> edgeTargets m"
    using edge_insertNewPackage unfolding edgeTargets_def by blast
  moreover have "dom (installationMap ?m') = insert to (dom (installationMap m))"
    "hardhatProjectPackage ?m' = hardhatProjectPackage m"
    "ran (packageByRootSourceName ?m') \<subseteq> insert to (ran (packageByRootSourceName m))"
    "set (remappingsToResolve ?m') = insert to (set (remappingsToResolve m))"
    "userRemappingsPerPackage ?m' = userRemappingsPerPackage m"
    by (auto simp: insertNewPackage_def allocate_def ran_def split: if_splits)
  ultimately show ?thesis
    unfolding heldPackages_def by auto
qed

lemma remappingTargets_pushUserRemapping:
  assumes "userRemappingsPerPackage m p = Some remappings"
  shows "remappingTargets (pushUserRemapping p remappings r m) \<subseteq>
           remappingTargets m \<union> {X. \<exists>t. targetNpmPackage r = Some t \<and> tnp_package t = X}"
proof
  fix X assume "X \<in> remappingTargets (pushUserRemapping p remappings r m)"
  then obtain q rs r' t where
    q: "userRemappingsPerPackage (pushUserRemapping p remappings r m) q = Some rs"
    and r': "r' \<in> set rs" and t: "targetNpmPackage r' = Some t" "tnp_package t = X"
    unfolding remappingTargets_def by blast
  show "X \<in> remappingTargets m \<union> {X. \<exists>t. targetNpmPackage r = Some t \<and> tnp_package t = X}"
  proof (cases "q = p")
    case True
    with q have "rs = remappings @ [r]"
      by (simp add: pushUserRemapping_def)
    with r' have "r' \<in> set remappings \<or> r' = r" by auto
    with assms t show ?thesis
      unfolding remappingTargets_def by blast
  next
    case False
    with q have "userRemappingsPerPackage m q = Some rs"
      by (simp add: pushUserRemapping_def)
    with r' t show ?thesis
      unfolding remappingTargets_def by blast
  qed
qed

lemma held_pushUserRemapping:
  assumes "userRemappingsPerPackage m p = Some remappings"
    and "\<And>t. targetNpmPackage r = Some t \<Longrightarrow> tnp_package t \<in> heldPackages m"
  shows "heldPackages (pushUserRemapping p remappings r m) \<subseteq> heldPackages m"
proof -
  let ?m' = "pushUserRemapping p remappings r m"
  have "edgeTargets ?m' = edgeTargets m"
    by (rule edgeTargets_cong) simp
  moreover have "dom (userRemappingsPerPackage ?m') = dom (userRemappingsPerPackage m)"
    using assms(1) by (auto simp: pushUserRemapping_def)
  moreover have "hardhatProjectPackage ?m' = hardhatProjectPackage m"
    "packageByRootSourceName ?m' = packageByRootSourceName m"
    "remappingsToResolve ?m' = remappingsToResolve m"
    "installationMap ?m' = installationMap m"
    by (simp_all add: pushUserRemapping_def)
  moreover have "remappingTargets ?m' \<subseteq> heldPackages m"
    using remappingTargets_pushUserRemapping [OF assms(1), of r] assms(2)
    unfolding heldPackages_def by blast
  ultimately show ?thesis
    unfolding heldPackages_def by auto
qed

lemma interned_mapStep:
  assumes "interned m" and "mapStep env p m m'"
  shows "interned m'"
  using assms(2)
proof cases
  case (resolved instName r)
  then show ?thesis
  proof (cases rule: internal_cases)
    case unchanged
    with assms(1) show ?thesis by simp
  next
    case (existing deps to key)
    have "to \<in> heldPackages m"
      using existing(3) unfolding heldPackages_def by (auto simp: ran_def)
    with assms(1) have to: "packageByRootSourceName m (rootSourceName to) = Some to"
      unfolding interned_def by blast
    show ?thesis
      unfolding existing(5)
      using assms(1) held_setDependency [OF existing(1)]
    proof (rule interned_grow)
      fix X assume "X \<in> {to}"
      with to show "packageByRootSourceName
          (setDependency p deps instName (edgeTo p instName to) m) (rootSourceName X) = Some X"
        by (simp add: setDependency_def)
    qed (simp add: setDependency_def)
  next
    case (loaded deps to)
    let ?m1 = "insertNewPackage to (allocate m)"
    have "p \<in> heldPackages m"
      using loaded(1) unfolding heldPackages_def by auto
    with assms(1) loaded(3) have "p \<noteq> to"
      unfolding interned_def by auto
    with loaded(1) have "installationMap ?m1 p = Some deps"
      by (simp add: insertNewPackage_def allocate_def)
    from held_setDependency [OF this] held_insertNewPackage [of to m]
    have held: "heldPackages (setDependency p deps instName (edgeTo p instName to) ?m1) \<subseteq>
        heldPackages m \<union> {to}"
      by blast
    show ?thesis
      unfolding loaded(6)
      using assms(1) held
    proof (rule interned_grow)
      fix X assume "X \<in> {to}"
      then show "packageByRootSourceName
          (setDependency p deps instName (edgeTo p instName to) ?m1) (rootSourceName X) = Some X"
        by (simp add: setDependency_def insertNewPackage_def allocate_def)
    next
      fix k X assume "packageByRootSourceName m k = Some X"
      with loaded(3) show "packageByRootSourceName
          (setDependency p deps instName (edgeTo p instName to) ?m1) k = Some X"
        by (auto simp: setDependency_def insertNewPackage_def allocate_def)
    qed
  qed
next
  case (pushed remappings r src)
  have "\<And>t. targetNpmPackage r = Some t \<Longrightarrow> tnp_package t \<in> heldPackages m"
    using pushed(4) unfolding heldPackages_def edgeTargets_def by blast
  from held_pushUserRemapping [OF pushed(2) this]
  have "heldPackages (pushUserRemapping p remappings r m) \<subseteq> heldPackages m \<union> {}"
    by simp
  with assms(1) show ?thesis
    unfolding pushed(1)
    by (rule interned_grow) (simp_all add: pushUserRemapping_def)
qed

lemma interned_steps:
  assumes "(mapStep env p)\<^sup>*\<^sup>* m m'" and "interned m"
  shows "interned m'"
  using assms by (induction rule: rtranclp_induct) (auto intro: interned_mapStep)

lemma interned_startRemappings:
  assumes "interned m" and "p \<in> set (remappingsToResolve m)"
  shows "interned (startRemappings p m)"
proof -
  have "remappingTargets (startRemappings p m) \<subseteq> remappingTargets m"
    unfolding remappingTargets_def startRemappings_def by (auto split: if_splits)
  moreover have "edgeTargets (startRemappings p m) = edgeTargets m"
    by (rule edgeTargets_cong) (simp add: startRemappings_def)
  ultimately have "heldPackages (startRemappings p m) \<subseteq> heldPackages m \<union> {}"
    using assms(2) unfolding heldPackages_def by (auto simp: startRemappings_def)
  with assms(1) show ?thesis
    by (rule interned_grow) (simp_all add: startRemappings_def)
qed

lemma interned_shiftQueue:
  assumes "interned m"
  shows "interned (shiftQueue m)"
proof -
  have "remappingTargets (shiftQueue m) = remappingTargets m"
    by (rule remappingTargets_cong) (simp add: shiftQueue_def)
  moreover have "edgeTargets (shiftQueue m) = edgeTargets m"
    by (rule edgeTargets_cong) (simp add: shiftQueue_def)
  moreover have "set (tl (remappingsToResolve m)) \<subseteq> set (remappingsToResolve m)"
    by (cases "remappingsToResolve m") auto
  ultimately have "heldPackages (shiftQueue m) \<subseteq> heldPackages m \<union> {}"
    unfolding heldPackages_def by (auto simp: shiftQueue_def)
  with assms show ?thesis
    by (rule interned_grow) (simp_all add: shiftQueue_def)
qed

lemma resolveRemaining_interned:
  assumes "resolveRemaining env errors m = Some y"
  shows "interned m \<longrightarrow> interned (snd y)"
  using assms
proof (induction rule: resolveRemaining_induct)
  case (drained errors m)
  then show ?case by simp
next
  case (thrown errors m p queued e m1)
  show ?case
  proof
    assume "interned m"
    with thrown(1) have "interned (startRemappings p m)"
      by (intro interned_startRemappings) simp_all
    with validatePackage_steps [OF thrown(2)] show "interned (snd (Inl e, m1))"
      by (simp add: interned_steps)
  qed
next
  case (continued errors m p queued errs m1 y)
  show ?case
  proof
    assume "interned m"
    with continued(1) have "interned (startRemappings p m)"
      by (intro interned_startRemappings) simp_all
    with validatePackage_steps [OF continued(2)] have "interned m1"
      by (rule interned_steps)
    then have "interned (shiftQueue m1)"
      by (rule interned_shiftQueue)
    with continued(4) show "interned (snd y)" by simp
  qed
qed

lemma interned_new: "interned (newRemappedNpmPackagesMap projectPackage)"
  unfolding interned_def heldPackages_def newRemappedNpmPackagesMap_def insertNewPackage_def
    edgeTargets_def remappingTargets_def installationEdge_def
  by (auto simp: ran_def split: if_splits)

lemma create_interned:
  assumes "create env root = Some (Inr (Success m))"
  shows "interned m"
proof -
  from assms obtain projectPackage r where
    "resolveRemaining env [] (newRemappedNpmPackagesMap projectPackage) = Some (r, m)"
    unfolding create_def Let_def resolveAnyRemainingRemappings_def
    by (auto split: option.splits sum.splits prod.splits if_splits)
  from resolveRemaining_interned [OF this] interned_new show ?thesis
    by simp
qed

lemma public_resolve_interned:
  assumes "resolveDependencyByInstallationName env from instName m = Some (r, m')"
    and "interned m"
  shows "interned m'"
proof -
  obtain ri mi where
    call: "resolveDependencyByInstallationName_internal env from instName m = (ri, mi)"
    by (cases "resolveDependencyByInstallationName_internal env from instName m")
  then have "mapStep env from m mi"
    by (rule mapStep.resolved)
  with assms(2) have mi: "interned mi"
    by (rule interned_mapStep)
  show ?thesis
  proof (cases "\<exists>d. ri = Inr (Some d)")
    case False
    with assms(1) call mi show ?thesis
      unfolding resolveDependencyByInstallationName_def
      by (auto split: sum.splits option.splits)
  next
    case True
    then obtain d where "ri = Inr (Some d)" ..
    with assms(1) call obtain y where
      "resolveRemaining env [] mi = Some y" "snd y = m'"
      unfolding resolveDependencyByInstallationName_def resolveAnyRemainingRemappings_def
      by (auto split: sum.splits option.splits prod.splits)
    with resolveRemaining_interned [of env "[]" mi y] mi show ?thesis by blast
  qed
qed

lemma reachable_interned:
  assumes "reachableMap env root m"
  shows "interned m"
  using assms
  by induction (auto intro: create_interned public_resolve_interned)

text \<open>
  C1. In every map that a caller can observe (the one \<^verbatim>\<open>create\<close> returns, and the
  ones the public \<^verbatim>\<open>resolveDependencyByInstallationName\<close> leaves), two installation
  edges whose ends have the same root source name end at the same package object, and
  two different package objects held by the map have different root source names.
\<close>

theorem C1_package_canonicity:
  assumes "reachableMap env root m"
  shows "(\<forall>a nameA X b nameB Y.
            installationEdge m a nameA X \<and> installationEdge m b nameB Y \<and>
            rootSourceName X = rootSourceName Y \<longrightarrow> X = Y) \<and>
         (\<forall>X \<in> heldPackages m. \<forall>Y \<in> heldPackages m.
            X \<noteq> Y \<longrightarrow> rootSourceName X \<noteq> rootSourceName Y)"
proof -
  have held: "\<And>X. X \<in> heldPackages m \<Longrightarrow>
      packageByRootSourceName m (rootSourceName X) = Some X"
    using reachable_interned [OF assms] unfolding interned_def by blast
  have edges: "\<And>a n X. installationEdge m a n X \<Longrightarrow> X \<in> heldPackages m"
    unfolding heldPackages_def edgeTargets_def by blast
  show ?thesis
  proof (intro conjI allI impI ballI)
    fix a nameA X b nameB Y
    assume "installationEdge m a nameA X \<and> installationEdge m b nameB Y \<and>
      rootSourceName X = rootSourceName Y"
    then have "packageByRootSourceName m (rootSourceName X) = Some X"
      "packageByRootSourceName m (rootSourceName X) = Some Y"
      using held edges by (blast, metis)
    then show "X = Y" by simp
  next
    fix X Y assume "X \<in> heldPackages m" "Y \<in> heldPackages m" "X \<noteq> Y"
    then show "rootSourceName X \<noteq> rootSourceName Y"
      using held by (metis option.inject)
  qed
qed

lemma aliasEnv_edges:
  "(case create aliasEnv ''/p'' of
      Some (Inr (Success m)) \<Rightarrow>
        (case installationMap m demoProject of
           Some deps \<Rightarrow>
             (map_option dep_package (deps ''dep1''),
              map_option dep_package (deps ''dep1-alias''))
         | None \<Rightarrow> (None, None))
    | _ \<Rightarrow> (None, None)) = (Some dep1Package, Some dep1Package)"
  by code_simp

theorem C1_package_canonicity_witness:
  "\<exists>m. create aliasEnv ''/p'' = Some (Inr (Success m)) \<and>
       installationEdge m demoProject ''dep1'' dep1Package \<and>
       installationEdge m demoProject ''dep1-alias'' dep1Package \<and>
       rootFsPath dep1Package = ''/p/node_modules/dep1'' \<and>
       \<not> (\<exists>Y. installationEdge m demoProject ''dep1-alias'' Y \<and>
              rootSourceName Y = rootSourceName dep1Package \<and> Y \<noteq> dep1Package)"
proof -
  from aliasEnv_edges obtain m deps d1 d2 where
    created: "create aliasEnv ''/p'' = Some (Inr (Success m))"
    and deps: "installationMap m demoProject = Some deps"
    and d1: "deps ''dep1'' = Some d1" "dep_package d1 = dep1Package"
    and d2: "deps ''dep1-alias'' = Some d2" "dep_package d2 = dep1Package"
    by (auto split: option.splits sum.splits Result.splits)
  have e1: "installationEdge m demoProject ''dep1'' dep1Package"
    and e2: "installationEdge m demoProject ''dep1-alias'' dep1Package"
    using deps d1 d2 by (auto simp: installationEdge_def)
  have "reachableMap aliasEnv ''/p'' m"
    using created by (rule reachableMap.created)
  from C1_package_canonicity [OF this] e1
  have "\<not> (\<exists>Y. installationEdge m demoProject ''dep1-alias'' Y \<and>
      rootSourceName Y = rootSourceName dep1Package \<and> Y \<noteq> dep1Package)"
    by blast
  with created e1 e2 show ?thesis
    by (auto simp: dep1Package_def)
qed

section \<open>What a run of the queue leaves as it is\<close>

lemma mapStep_queue:
  assumes "mapStep env q m m'"
  shows "set (remappingsToResolve m) \<subseteq> set (remappingsToResolve m')"
  using assms
proof cases
  case (resolved instName r)
  then show ?thesis
    by (cases rule: internal_cases)
      (auto simp: setDependency_def insertNewPackage_def allocate_def)
next
  case (pushed remappings r src)
  then show ?thesis by (simp add: pushUserRemapping_def)
qed

lemma steps_invariant:
  assumes steps: "(mapStep env q)\<^sup>*\<^sup>* m m'"
    and start: "I m" and queued: "q \<in> set (remappingsToResolve m)"
    and step: "\<And>m m'. I m \<Longrightarrow> q \<in> set (remappingsToResolve m) \<Longrightarrow> mapStep env q m m' \<Longrightarrow> I m'"
  shows "I m' \<and> q \<in> set (remappingsToResolve m')"
  using steps
proof (induction rule: rtranclp_induct)
  case base
  from start queued show ?case by simp
next
  case (step m1 m2)
  then show ?case using assms(4) mapStep_queue by blast
qed

lemma drain_invariant:
  assumes run: "resolveRemaining env errors m = Some (r, m')"
    and start: "I m"
    and step: "\<And>q m m'. I m \<Longrightarrow> q \<in> set (remappingsToResolve m) \<Longrightarrow> mapStep env q m m' \<Longrightarrow> I m'"
    and started: "\<And>q m. I m \<Longrightarrow> q \<in> set (remappingsToResolve m) \<Longrightarrow> I (startRemappings q m)"
    and shift: "\<And>m. I m \<Longrightarrow> I (shiftQueue m)"
  shows "I m'"
proof -
  have package: "I m1"
    if "remappingsToResolve m0 = q # queued" "I m0"
      "validateAndResolveUserRemappingsOfAnExistingPackage env q (startRemappings q m0) = (r1, m1)"
    for m0 q queued r1 m1
  proof -
    from that(1,2) have "I (startRemappings q m0)"
      by (intro started) simp_all
    moreover have "q \<in> set (remappingsToResolve (startRemappings q m0))"
      using that(1) by (simp add: startRemappings_def)
    ultimately show ?thesis
      using steps_invariant [OF validatePackage_steps [OF that(3)], of I] step by blast
  qed
  have "I m \<longrightarrow> I (snd (r, m'))"
    using run
  proof (induction rule: resolveRemaining_induct)
    case (drained errors m)
    then show ?case by simp
  next
    case (thrown errors m q queued e m1)
    then show ?case using package by auto
  next
    case (continued errors m q queued errs m1 y)
    then show ?case using package shift by blast
  qed
  with start show ?thesis by simp
qed

lemma drained_queue:
  assumes "resolveRemaining env errors m = Some y"
  shows "\<forall>errors' m'. y = (Inr errors', m') \<longrightarrow> remappingsToResolve m' = []"
  using assms
  by (induction rule: resolveRemaining_induct) simp_all

lemma held_not_new:
  assumes "interned m" and "X \<in> heldPackages m"
    and "packageByRootSourceName m (rootSourceName to) = None"
  shows "to \<noteq> X"
  using assms unfolding interned_def by auto

lemma step_keeps_remappings:
  assumes "mapStep env q m m'"
    and "interned m \<and> userRemappingsPerPackage m P = Some rems \<and>
         P \<notin> set (remappingsToResolve m)"
    and "q \<in> set (remappingsToResolve m)"
  shows "interned m' \<and> userRemappingsPerPackage m' P = Some rems \<and>
         P \<notin> set (remappingsToResolve m')"
proof -
  from assms(2) have held: "P \<in> heldPackages m"
    by (auto simp: heldPackages_def)
  from assms(2,3) have other: "q \<noteq> P" by auto
  have "interned m'"
    using assms(2,1) by (blast intro: interned_mapStep)
  moreover have "userRemappingsPerPackage m' P = Some rems \<and> P \<notin> set (remappingsToResolve m')"
    using assms(1)
  proof cases
    case (resolved instName r)
    then show ?thesis
    proof (cases rule: internal_cases)
      case unchanged
      with assms(2) show ?thesis by simp
    next
      case (existing deps to key)
      with assms(2) show ?thesis by (simp add: setDependency_def)
    next
      case (loaded deps to jsonPath json)
      from held_not_new [OF _ held loaded(3)] assms(2) have "to \<noteq> P" by simp
      with loaded assms(2) show ?thesis
        by (simp add: setDependency_def insertNewPackage_def allocate_def)
    qed
  next
    case (pushed remappings r src)
    with assms(2) other show ?thesis by (simp add: pushUserRemapping_def)
  qed
  ultimately show ?thesis by simp
qed

lemma step_keeps_edge:
  assumes "mapStep env q m m'"
    and "interned m \<and> (\<exists>deps. installationMap m F = Some deps \<and> deps instName = Some dep)"
  shows "interned m' \<and> (\<exists>deps. installationMap m' F = Some deps \<and> deps instName = Some dep)"
proof -
  from assms(2) obtain deps where
    edge: "installationMap m F = Some deps" "deps instName = Some dep"
    by blast
  then have held: "F \<in> heldPackages m"
    by (auto simp: heldPackages_def)
  have "interned m'"
    using assms(2,1) by (blast intro: interned_mapStep)
  moreover have "\<exists>deps. installationMap m' F = Some deps \<and> deps instName = Some dep"
    using assms(1)
  proof cases
    case (resolved other r)
    then show ?thesis
    proof (cases rule: internal_cases)
      case unchanged
      with edge show ?thesis by simp
    next
      case (existing deps2 to key)
      with edge show ?thesis by (auto simp: setDependency_def)
    next
      case (loaded deps2 to jsonPath json)
      from held_not_new [OF _ held loaded(3)] assms(2) have "to \<noteq> F" by simp
      with loaded edge show ?thesis
        by (auto simp: setDependency_def insertNewPackage_def allocate_def)
    qed
  next
    case (pushed remappings r src)
    with edge show ?thesis by simp
  qed
  ultimately show ?thesis by simp
qed

lemma step_keeps_project:
  assumes "mapStep env q m m'"
  shows "hardhatProjectPackage m' = hardhatProjectPackage m"
  using assms
proof cases
  case (resolved instName r)
  then show ?thesis
    by (cases rule: internal_cases)
      (simp_all add: setDependency_def insertNewPackage_def allocate_def)
next
  case (pushed remappings r src)
  then show ?thesis by (simp add: pushUserRemapping_def)
qed

lemma drain_keeps_remappings:
  assumes "resolveRemaining env errors m = Some (r, m')"
    and "interned m" and "userRemappingsPerPackage m P = Some rems"
    and "P \<notin> set (remappingsToResolve m)"
  shows "userRemappingsPerPackage m' P = Some rems"
proof -
  let ?I = "\<lambda>m. interned m \<and> userRemappingsPerPackage m P = Some rems \<and>
      P \<notin> set (remappingsToResolve m)"
  have "?I m'"
    using assms(1)
  proof (rule drain_invariant [where I = ?I])
    show "?I m" using assms(2-4) by simp
  next
    fix q m m' assume "?I m" "q \<in> set (remappingsToResolve m)" "mapStep env q m m'"
    then show "?I m'" using step_keeps_remappings by blast
  next
    fix q m assume "?I m" "q \<in> set (remappingsToResolve m)"
    then show "?I (startRemappings q m)"
      using interned_startRemappings [of m q]
      by (auto simp: startRemappings_def)
  next
    fix m assume "?I m"
    then show "?I (shiftQueue m)"
      using interned_shiftQueue [of m]
      by (cases "remappingsToResolve m") (auto simp: shiftQueue_def)
  qed
  then show ?thesis by simp
qed

lemma drain_keeps_edge:
  assumes "resolveRemaining env errors m = Some (r, m')"
    and "interned m" and "installationMap m F = Some deps" and "deps instName = Some dep"
  shows "\<exists>deps'. installationMap m' F = Some deps' \<and> deps' instName = Some dep"
proof -
  let ?I = "\<lambda>m. interned m \<and>
      (\<exists>deps. installationMap m F = Some deps \<and> deps instName = Some dep)"
  have "?I m'"
    using assms(1)
  proof (rule drain_invariant [where I = ?I])
    show "?I m" using assms(2-4) by blast
  next
    fix q m m' assume "?I m" "q \<in> set (remappingsToResolve m)" "mapStep env q m m'"
    then show "?I m'" using step_keeps_edge by blast
  next
    fix q m assume "?I m" "q \<in> set (remappingsToResolve m)"
    then show "?I (startRemappings q m)"
      using interned_startRemappings [of m q]
      by (auto simp: startRemappings_def)
  next
    fix m assume "?I m"
    then show "?I (shiftQueue m)"
      using interned_shiftQueue [of m]
      by (auto simp: shiftQueue_def)
  qed
  then show ?thesis by simp
qed

lemma drain_keeps_project:
  assumes "resolveRemaining env errors m = Some (r, m')"
  shows "hardhatProjectPackage m' = hardhatProjectPackage m"
  using assms
  by (rule drain_invariant [where I = "\<lambda>x. hardhatProjectPackage x = hardhatProjectPackage m"])
    (simp_all add: step_keeps_project startRemappings_def shiftQueue_def)

lemma internal_existing_edge:
  assumes "installationMap m from = Some deps" and "deps instName = Some dep"
  shows "resolveDependencyByInstallationName_internal env from instName m = (Inr (Some dep), m)"
  using assms by (simp add: resolveDependencyByInstallationName_internal_def)

lemma resolveRemaining_empty:
  assumes "remappingsToResolve m = []"
  shows "resolveRemaining env errors m = Some (Inr errors, m)"
  using assms by (subst resolveRemaining.simps) simp

lemma public_resolve_parts:
  assumes "resolveDependencyByInstallationName env from instName m =
      Some (Inr (Some (dep, None)), m')"
  obtains mi where
    "resolveDependencyByInstallationName_internal env from instName m = (Inr (Some dep), mi)"
    "resolveRemaining env [] mi = Some (Inr [], m')"
proof -
  obtain ri mi where
    internal: "resolveDependencyByInstallationName_internal env from instName m = (ri, mi)"
    by (cases "resolveDependencyByInstallationName_internal env from instName m")
  with assms have "ri = Inr (Some dep)"
    unfolding resolveDependencyByInstallationName_def
    by (auto split: sum.splits option.splits prod.splits if_splits)
  moreover from this assms internal have "resolveRemaining env [] mi = Some (Inr [], m')"
    unfolding resolveDependencyByInstallationName_def resolveAnyRemainingRemappings_def
    by (auto split: sum.splits option.splits prod.splits if_splits)
  ultimately show ?thesis using internal that by simp
qed

lemma public_resolve_again:
  assumes first: "resolveDependencyByInstallationName env from instName m =
      Some (Inr (Some (dep, None)), m')"
    and interned: "interned m" and rest: "remappingsToResolve m = []"
  shows "resolveDependencyByInstallationName env from instName m' =
      Some (Inr (Some (dep, None)), m')"
    and "userRemappingsPerPackage m P = Some rems \<Longrightarrow> userRemappingsPerPackage m' P = Some rems"
    and "hardhatProjectPackage m' = hardhatProjectPackage m"
proof -
  from first obtain mi where
    internal: "resolveDependencyByInstallationName_internal env from instName m =
      (Inr (Some dep), mi)"
    and drain: "resolveRemaining env [] mi = Some (Inr [], m')"
    by (rule public_resolve_parts)
  have step: "mapStep env from m mi"
    using internal by (rule mapStep.resolved)
  with interned have mi: "interned mi"
    by (rule interned_mapStep)
  from internal_edge [OF internal] obtain deps where
    "installationMap mi from = Some deps" "deps instName = Some dep"
    by blast
  with drain mi obtain deps' where
    edge: "installationMap m' from = Some deps'" "deps' instName = Some dep"
    using drain_keeps_edge by blast
  from drained_queue [OF drain] have "remappingsToResolve m' = []"
    by simp
  then have "resolveRemaining env [] m' = Some (Inr [], m')"
    by (rule resolveRemaining_empty)
  with internal_existing_edge [OF edge] show
    "resolveDependencyByInstallationName env from instName m' =
      Some (Inr (Some (dep, None)), m')"
    by (simp add: resolveDependencyByInstallationName_def resolveAnyRemainingRemappings_def)
  from step_keeps_project [OF step] drain_keeps_project [OF drain]
  show "hardhatProjectPackage m' = hardhatProjectPackage m"
    by simp
  show "userRemappingsPerPackage m' P = Some rems"
    if stored: "userRemappingsPerPackage m P = Some rems"
  proof -
    from stored have held: "P \<in> heldPackages m"
      by (auto simp: heldPackages_def)
    have "userRemappingsPerPackage mi P = Some rems"
      using internal_userRemappings [OF internal] stored by simp
    moreover have "P \<notin> set (remappingsToResolve mi)"
      using internal
    proof (cases rule: internal_cases)
      case unchanged
      with rest show ?thesis by simp
    next
      case (existing deps to key)
      with rest show ?thesis by (simp add: setDependency_def)
    next
      case (loaded deps to jsonPath json)
      from held_not_new [OF interned held loaded(3)] loaded rest show ?thesis
        by (simp add: setDependency_def insertNewPackage_def allocate_def)
    qed
    ultimately show ?thesis
      using drain mi drain_keeps_remappings by blast
  qed
qed

section \<open>Resolving an import twice\<close>

lemma userRemapped_again:
  assumes "resolveUserRemappedImport env from importPath directImport remapping s =
      (Inr (Success resolved), s')"
  shows "resolveUserRemappedImport env from importPath directImport remapping s' =
      (Inr (Success resolved), s')"
    and "ri_file resolved \<in> ran (resolvedFileBySourceName s')"
    and "npmPackageMap s' = npmPackageMap s"
proof -
  let ?key = "applyValidRemapping directImport remapping"
  have "resolvedFileBySourceName s' ?key = Some (ri_file resolved) \<and>
      ri_remapping resolved = Some (UserRemapping remapping) \<and>
      npmPackageMap s' = npmPackageMap s"
    using assms
    unfolding resolveUserRemappedImport_def Let_def
    by (auto simp: internFile_def split: option.splits PathValidation.splits sum.splits)
  then show "resolveUserRemappedImport env from importPath directImport remapping s' =
      (Inr (Success resolved), s')"
    "ri_file resolved \<in> ran (resolvedFileBySourceName s')"
    "npmPackageMap s' = npmPackageMap s"
    by (auto simp: resolveUserRemappedImport_def Let_def ran_def)
qed

lemma fromNpmPackageOf_cong:
  assumes "hardhatProjectPackage (npmPackageMap s') = hardhatProjectPackage (npmPackageMap s)"
  shows "fromNpmPackageOf s' from = fromNpmPackageOf s from"
  using assms by (simp add: fromNpmPackageOf_def)

lemma npmFile_again:
  assumes "resolveNpmFile env from importPath directImport parsed dependency s =
      (Inr (Success resolved), s')"
  shows "resolveNpmFile env from importPath directImport parsed dependency s' =
      (Inr (Success resolved), s')"
    and "ri_file resolved \<in> ran (resolvedFileBySourceName s')"
    and "npmPackageMap s' = npmPackageMap s"
proof -
  obtain resolvedSubpath where
    exported: "(case exports (dep_package dependency) of
        None \<Rightarrow> Inr (Success None)
      | Some ex \<Rightarrow>
          (case resolveSubpathWithPackageExports env (dep_package dependency)
                  (ndi_subpath parsed) of
             Inl e \<Rightarrow> Inl e
           | Inr (Failure u) \<Rightarrow> Inr (Failure u)
           | Inr (Success v) \<Rightarrow> Inr (Success (Some v)))) = Inr (Success resolvedSubpath)"
    using assms
    unfolding resolveNpmFile_def Let_def
    by (auto split: sum.splits Result.splits)
  let ?relativePath = "case resolvedSubpath of Some r \<Rightarrow> r | None \<Rightarrow> ndi_subpath parsed"
  let ?key = "sourceNamePathJoin [rootSourceName (dep_package dependency), ?relativePath]"
  let ?remapping = "\<lambda>s. if (resolvedSubpath \<noteq> None \<and> resolvedSubpath \<noteq> Some (ndi_subpath parsed)) \<or>
         directImport = ''hardhat/console.sol''
      then generateRemappingIntoNpmFile (fromNpmPackageOf s from) directImport ?key
      else generatedRemapping dependency"
  have run: "resolveNpmFile env from importPath directImport parsed dependency s =
      (case resolvedFileBySourceName s ?key of
         Some existing \<Rightarrow>
           (Inr (Success \<lparr>ri_file = existing,
                          ri_remapping = Some (PlainRemapping (?remapping s))\<rparr>), s)
       | None \<Rightarrow>
           (case validateFsPath env (rootFsPath (dep_package dependency)) ?relativePath of
              DOESNT_EXIST \<Rightarrow>
                (Inr (Failure (IMPORT_DOESNT_EXIST (fsPath from) importPath
                   (buildResolvedFileReference env s (dep_package dependency)
                      (ndi_subpath parsed) None resolvedSubpath))), s)
            | CASING_ERROR correctCasing \<Rightarrow>
                (Inr (Failure (IMPORT_INVALID_CASING (fsPath from) importPath
                   (buildResolvedFileReference env s (dep_package dependency)
                      (ndi_subpath parsed) None resolvedSubpath) correctCasing)), s)
            | PathValid \<Rightarrow>
                (case buildResolvedFile env s ?key
                        (path_join [rootFsPath (dep_package dependency), ?relativePath])
                        (dep_package dependency) of
                   Inl e \<Rightarrow> (Inl e, s)
                 | Inr resolvedFile \<Rightarrow>
                     (Inr (Success \<lparr>ri_file = resolvedFile,
                                    ri_remapping = Some (PlainRemapping (?remapping s))\<rparr>),
                      internFile ?key resolvedFile s))))" for s
    unfolding resolveNpmFile_def Let_def exported by simp
  have after: "resolvedFileBySourceName s' ?key = Some (ri_file resolved) \<and>
      ri_remapping resolved = Some (PlainRemapping (?remapping s)) \<and>
      npmPackageMap s' = npmPackageMap s"
    using assms unfolding run
    by (auto simp: internFile_def split: option.splits PathValidation.splits sum.splits)
  then have "fromNpmPackageOf s' from = fromNpmPackageOf s from"
    by (intro fromNpmPackageOf_cong) simp
  then have "?remapping s' = ?remapping s"
    by (simp only:)
  with after show "resolveNpmFile env from importPath directImport parsed dependency s' =
      (Inr (Success resolved), s')"
    "ri_file resolved \<in> ran (resolvedFileBySourceName s')"
    "npmPackageMap s' = npmPackageMap s"
    unfolding run by (auto simp: ran_def)
qed


lemma setMap_same: "npmPackageMap s = m \<Longrightarrow> setMap m s = s"
  by (simp add: setMap_def)

lemma throughNpm_again:
  assumes first: "resolveImportThroughNpm env from importPath directImport s =
      Some (Inr (Success resolved), s')"
    and interned: "interned (npmPackageMap s)"
    and rest: "remappingsToResolve (npmPackageMap s) = []"
  shows "resolveImportThroughNpm env from importPath directImport s' =
      Some (Inr (Success resolved), s')"
    and "ri_file resolved \<in> ran (resolvedFileBySourceName s')"
    and "userRemappingsPerPackage (npmPackageMap s) P = Some rems \<Longrightarrow>
         userRemappingsPerPackage (npmPackageMap s') P = Some rems"
proof -
  let ?from = "fromNpmPackageOf s from"
  from first obtain parsed where parsed: "parseNpmDirectImport directImport = Some parsed"
    unfolding resolveImportThroughNpm_def by (auto split: option.splits)
  from first parsed obtain dep m1 where
    public: "resolveDependencyByInstallationName env ?from (ndi_package parsed)
        (npmPackageMap s) = Some (Inr (Some (dep, None)), m1)"
    and built: "resolveNpmFile env from importPath directImport parsed dep (setMap m1 s) =
        (Inr (Success resolved), s')"
    unfolding resolveImportThroughNpm_def
    by (auto split: option.splits sum.splits prod.splits)
  note again = public_resolve_again [OF public interned rest]
  note fileAgain = npmFile_again [OF built]
  have map': "npmPackageMap s' = m1"
    using fileAgain(3) by (simp add: setMap_def)
  then have "hardhatProjectPackage (npmPackageMap s') = hardhatProjectPackage (npmPackageMap s)"
    using again(3) by simp
  then have from': "fromNpmPackageOf s' from = ?from"
    by (rule fromNpmPackageOf_cong)
  show "resolveImportThroughNpm env from importPath directImport s' =
      Some (Inr (Success resolved), s')"
    unfolding resolveImportThroughNpm_def
    using parsed again(1) fileAgain(1) setMap_same [OF map']
    by (simp add: from' map')
  show "ri_file resolved \<in> ran (resolvedFileBySourceName s')"
    by (rule fileAgain(2))
  show "userRemappingsPerPackage (npmPackageMap s') P = Some rems"
    if "userRemappingsPerPackage (npmPackageMap s) P = Some rems"
    using again(2) [OF that] map' by simp
qed

lemma directNpm_success:
  assumes "resolveDirectImportThroughNpm env from importPath directImport s =
      Some (Inr (ImportResult (Success resolved)), s')"
  shows "resolveImportThroughNpm env from importPath directImport s =
      Some (Inr (Success resolved), s')"
  using assms
  unfolding resolveDirectImportThroughNpm_def
  by (auto split: option.splits sum.splits prod.splits Result.splits if_splits)

section \<open>C2: the remappings of scenario 1\<close>

text \<open>The lines of scenario 1, and what the validation makes of each.\<close>

lemma scenario1_lines:
  "rawUserRemappings scenario1Txt = [''foo/=bar/'', ''context/:prefix/=target/'']"
  by code_simp

lemma scenario1_first:
  "parseRemappingString ''foo/=bar/'' =
     Some \<lparr>rm_context = [], rm_prefix = ''foo/'', rm_target = ''bar/''\<rparr> \<and>
   \<not> withoutSlashEndings \<lparr>rm_context = [], rm_prefix = ''foo/'', rm_target = ''bar/''\<rparr> \<and>
   \<not> startsWith ''bar/'' ''node_modules/'' \<and>
   localUserRemapping demoProject ''/p/remappings.txt'' ''foo/=bar/''
       \<lparr>rm_context = [], rm_prefix = ''foo/'', rm_target = ''bar/''\<rparr> =
     \<lparr>rm_context = ''project/'', rm_prefix = ''foo/'', rm_target = ''project/bar/'',
      originalFormat = ''foo/=bar/'', source = ''/p/remappings.txt'',
      targetNpmPackage = None\<rparr>"
  by code_simp

lemma scenario1_second:
  "parseRemappingString ''context/:prefix/=target/'' =
     Some \<lparr>rm_context = ''context/'', rm_prefix = ''prefix/'', rm_target = ''target/''\<rparr> \<and>
   \<not> withoutSlashEndings
       \<lparr>rm_context = ''context/'', rm_prefix = ''prefix/'', rm_target = ''target/''\<rparr> \<and>
   \<not> startsWith ''target/'' ''node_modules/'' \<and>
   localUserRemapping demoProject ''/p/remappings.txt'' ''context/:prefix/=target/''
       \<lparr>rm_context = ''context/'', rm_prefix = ''prefix/'', rm_target = ''target/''\<rparr> =
     \<lparr>rm_context = ''project/context/'', rm_prefix = ''prefix/'',
      rm_target = ''project/target/'', originalFormat = ''context/:prefix/=target/'',
      source = ''/p/remappings.txt'', targetNpmPackage = None\<rparr>"
  by code_simp

text \<open>
  C2. A project rooted at \<^verbatim>\<open>/p\<close> whose only \<^verbatim>\<open>remappings.txt\<close> is the one at the root,
  with the lines \<^verbatim>\<open>foo/=bar/\<close> and \<^verbatim>\<open>context/:prefix/=target/\<close> separated by a blank
  line: \<^verbatim>\<open>create\<close> succeeds, and the user remappings of the project package are exactly
  the two entries of scenario 1, in that order. The context and the target are prefixed
  with \<^verbatim>\<open>project/\<close>, the prefix is kept, and the original format is the trimmed line.
\<close>

theorem C2_scenario1_remappings:
  assumes json: "readJsonFile env ''/p/package.json'' = Some pj"
    and files: "remappingsTxtFiles env (projectPackageOf ''/p'' pj) = [''/p/remappings.txt'']"
    and contents: "readUtf8File env ''/p/remappings.txt'' = Some scenario1Txt"
  shows "\<exists>m. create env ''/p'' = Some (Inr (Success m)) \<and>
           getUserRemappings m (hardhatProjectPackage m) =
             Inr [\<lparr>rm_context = ''project/'', rm_prefix = ''foo/'',
                    rm_target = ''project/bar/'', originalFormat = ''foo/=bar/'',
                    source = ''/p/remappings.txt'', targetNpmPackage = None\<rparr>,
                  \<lparr>rm_context = ''project/context/'', rm_prefix = ''prefix/'',
                    rm_target = ''project/target/'',
                    originalFormat = ''context/:prefix/=target/'',
                    source = ''/p/remappings.txt'', targetNpmPackage = None\<rparr>]"
proof -
  let ?p = "projectPackageOf ''/p'' pj"
  let ?src = "''/p/remappings.txt''"
  let ?r1 = "\<lparr>rm_context = ''project/'', rm_prefix = ''foo/'',
      rm_target = ''project/bar/'', originalFormat = ''foo/=bar/'',
      source = ?src, targetNpmPackage = None\<rparr>"
  let ?r2 = "\<lparr>rm_context = ''project/context/'', rm_prefix = ''prefix/'',
      rm_target = ''project/target/'', originalFormat = ''context/:prefix/=target/'',
      source = ?src, targetNpmPackage = None\<rparr>"
  let ?m0 = "startRemappings ?p (newRemappedNpmPackagesMap ?p)"
  let ?m1 = "pushUserRemapping ?p [] ?r1 ?m0"
  let ?m2 = "pushUserRemapping ?p [?r1] ?r2 ?m1"
  have root: "rootFsPath ?p = rootFsPath demoProject"
    "rootSourceName ?p = rootSourceName demoProject"
    by (simp_all add: projectPackageOf_def demoProject_def HARDHAT_PROJECT_ROOT_SOURCE_NAME_def)
  have m0: "installationMap ?m0 ?p = Some Map.empty" "userRemappingsPerPackage ?m0 ?p = Some []"
    by (simp_all add: startRemappings_def newRemappedNpmPackagesMap_def insertNewPackage_def)
  have m1: "installationMap ?m1 ?p = Some Map.empty"
    "userRemappingsPerPackage ?m1 ?p = Some [?r1]"
    using m0 by (simp_all add: pushUserRemapping_def)
  have first: "validateAndResolveUserRemapping env ?p ?src ''foo/=bar/'' ?m0 = (Inr None, ?m1)"
    using validate_local [of "''foo/=bar/''" _ ?m0 ?p Map.empty "[]" env ?src]
      scenario1_first m0 localUserRemapping_root [OF root]
    by simp
  have second: "validateAndResolveUserRemapping env ?p ?src ''context/:prefix/=target/'' ?m1 =
      (Inr None, ?m2)"
    using validate_local [of "''context/:prefix/=target/''" _ ?m1 ?p Map.empty "[?r1]" env ?src]
      scenario1_second m1 localUserRemapping_root [OF root]
    by simp
  have "validateLines env ?p ?src (rawUserRemappings scenario1Txt) [] ?m0 = (Inr [], ?m2)"
    by (simp add: scenario1_lines first second)
  with files contents m0(2) have
    package: "validateAndResolveUserRemappingsOfAnExistingPackage env ?p ?m0 = (Inr [], ?m2)"
    by (simp add: validateAndResolveUserRemappingsOfAnExistingPackage_def)
  have queue: "remappingsToResolve (newRemappedNpmPackagesMap ?p) = [?p]"
    by (rule queue_new)
  have emptied: "remappingsToResolve (shiftQueue ?m2) = []"
    by (simp add: shiftQueue_def pushUserRemapping_def startRemappings_def queue)
  have "resolveRemaining env [] (shiftQueue ?m2) = Some (Inr [], shiftQueue ?m2)"
    by (subst resolveRemaining.simps) (simp add: emptied)
  with package queue have
    "resolveRemaining env [] (newRemappedNpmPackagesMap ?p) = Some (Inr [], shiftQueue ?m2)"
    by (subst resolveRemaining.simps) simp
  moreover have "path_join [''/p'', ''package.json''] = ''/p/package.json''"
    by (rule join_package_json)
  ultimately have made: "create env ''/p'' = Some (Inr (Success (shiftQueue ?m2)))"
    using json
    by (simp add: create_def resolveAnyRemainingRemappings_def projectPackageOf_def)
  have "hardhatProjectPackage (shiftQueue ?m2) = ?p"
    by (simp add: shiftQueue_def pushUserRemapping_def startRemappings_def
        newRemappedNpmPackagesMap_def insertNewPackage_def)
  moreover have "userRemappingsPerPackage (shiftQueue ?m2) ?p = Some [?r1, ?r2]"
    by (simp add: shiftQueue_def pushUserRemapping_def)
  ultimately have "getUserRemappings (shiftQueue ?m2) (hardhatProjectPackage (shiftQueue ?m2)) =
      Inr [?r1, ?r2]"
    by (simp add: getUserRemappings_def)
  with made show ?thesis by blast
qed

text \<open>Scenario 1 on a file system that holds nothing else.\<close>

theorem C2_scenario1_remappings_witness:
  "\<exists>m. create scenario1Env ''/p'' = Some (Inr (Success m)) \<and>
       getUserRemappings m (hardhatProjectPackage m) =
         Inr [\<lparr>rm_context = ''project/'', rm_prefix = ''foo/'',
                rm_target = ''project/bar/'', originalFormat = ''foo/=bar/'',
                source = ''/p/remappings.txt'', targetNpmPackage = None\<rparr>,
              \<lparr>rm_context = ''project/context/'', rm_prefix = ''prefix/'',
                rm_target = ''project/target/'',
                originalFormat = ''context/:prefix/=target/'',
                source = ''/p/remappings.txt'', targetNpmPackage = None\<rparr>]"
proof -
  have json: "readJsonFile scenario1Env ''/p/package.json'' = Some demoPackageJson"
    by (simp add: scenario1Env_def remappingsEnv_def)
  have "remappingsTxtFiles scenario1Env demoProject = [''/p/remappings.txt'']"
    by code_simp
  moreover have "projectPackageOf ''/p'' demoPackageJson = demoProject"
    by (simp add: projectPackageOf_def demoPackageJson_def demoProject_def
        HARDHAT_PROJECT_ROOT_SOURCE_NAME_def)
  ultimately have files:
    "remappingsTxtFiles scenario1Env (projectPackageOf ''/p'' demoPackageJson) =
       [''/p/remappings.txt'']"
    by simp
  have contents: "readUtf8File scenario1Env ''/p/remappings.txt'' = Some scenario1Txt"
    by (simp add: scenario1Env_def remappingsEnv_def)
  show ?thesis
    using json files contents by (rule C2_scenario1_remappings)
qed

section \<open>C3: the order of the remappings of a package\<close>

text \<open>
  C3 (amended). In every map that a caller can observe, the user remappings of a package
  are listed file by file in the order in which \<^verbatim>\<open>getAllFilesMatching\<close> returns the
  \<^verbatim>\<open>remappings.txt\<close> files of the package, and within a file in the order of its
  lines. The map does not look at the depth of a file: nested files come first only if
  the enumeration lists them first.
\<close>

theorem C3_remappings_in_discovery_order:
  assumes "reachableMap env root m" and "getUserRemappings m p = Inr rems"
  shows "inDiscoveryOrder env (remappingsTxtFiles env p) rems"
proof -
  from assms(2) have "userRemappingsPerPackage m p = Some rems"
    by (auto simp: getUserRemappings_def split: option.splits)
  with reachable_ordered [OF assms(1)] show ?thesis
    by (simp add: ordered_def)
qed

text \<open>Scenario 3: \<^verbatim>\<open>lib/submodule\<close> first, \<^verbatim>\<open>lib/submodule2\<close> second, the root third.\<close>

lemma scenario3_order:
  "projectRemappingsOf (create threeFilesEnv ''/p'') =
     Some
       [\<lparr>rm_context = ''project/lib/submodule/context/'', rm_prefix = ''prefix/'',
          rm_target = ''project/lib/submodule/target/'',
          originalFormat = ''context/:prefix/=target/'',
          source = ''/p/lib/submodule/remappings.txt'', targetNpmPackage = None\<rparr>,
        \<lparr>rm_context = ''project/lib/submodule2/context/'', rm_prefix = ''prefix/'',
          rm_target = ''project/lib/submodule2/target/'',
          originalFormat = ''context/:prefix/=target/'',
          source = ''/p/lib/submodule2/remappings.txt'', targetNpmPackage = None\<rparr>,
        \<lparr>rm_context = ''project/'', rm_prefix = ''foo/'', rm_target = ''project/bar/'',
          originalFormat = ''foo/=bar/'', source = ''/p/remappings.txt'',
          targetNpmPackage = None\<rparr>]"
  by code_simp

theorem C3_remappings_in_discovery_order_witness:
  "\<exists>m rems.
     create threeFilesEnv ''/p'' = Some (Inr (Success m)) \<and>
     getUserRemappings m (hardhatProjectPackage m) = Inr rems \<and>
     map originOf rems =
       [(''/p/lib/submodule/remappings.txt'', ''context/:prefix/=target/''),
        (''/p/lib/submodule2/remappings.txt'', ''context/:prefix/=target/''),
        (''/p/remappings.txt'', ''foo/=bar/'')] \<and>
     inDiscoveryOrder threeFilesEnv
       (remappingsTxtFiles threeFilesEnv (hardhatProjectPackage m)) rems"
proof -
  from scenario3_order obtain m rems where
    made: "create threeFilesEnv ''/p'' = Some (Inr (Success m))"
    and stored: "getUserRemappings m (hardhatProjectPackage m) = Inr rems"
    and origins: "map originOf rems =
       [(''/p/lib/submodule/remappings.txt'', ''context/:prefix/=target/''),
        (''/p/lib/submodule2/remappings.txt'', ''context/:prefix/=target/''),
        (''/p/remappings.txt'', ''foo/=bar/'')]"
    unfolding projectRemappingsOf_def
    by (auto simp: originOf_def split: option.splits sum.splits Result.splits)
  from made have "reachableMap threeFilesEnv ''/p'' m"
    by (rule reachableMap.created)
  then have "inDiscoveryOrder threeFilesEnv
      (remappingsTxtFiles threeFilesEnv (hardhatProjectPackage m)) rems"
    using stored by (rule C3_remappings_in_discovery_order)
  with made stored origins show ?thesis
    by (intro exI [of _ m] exI [of _ rems] conjI)
qed

text \<open>
  C3, as stated, fails when the enumeration lists the file at the root before a nested
  one, as an enumeration in the order of the names does for \<^verbatim>\<open>remappings.txt\<close> and
  \<^verbatim>\<open>src/remappings.txt\<close>: the remapping of the root comes first and the nested one
  last.
\<close>

theorem C3_counterexample:
  "remappingsTxtFiles rootFirstEnv demoProject =
     [''/p/remappings.txt'', ''/p/src/remappings.txt''] \<and>
   projectRemappingsOf (create rootFirstEnv ''/p'') =
     Some
       [\<lparr>rm_context = ''project/'', rm_prefix = ''foo/'', rm_target = ''project/bar/'',
          originalFormat = ''foo/=bar/'', source = ''/p/remappings.txt'',
          targetNpmPackage = None\<rparr>,
        \<lparr>rm_context = ''project/src/context/'', rm_prefix = ''prefix/'',
          rm_target = ''project/src/target/'',
          originalFormat = ''context/:prefix/=target/'',
          source = ''/p/src/remappings.txt'', targetNpmPackage = None\<rparr>]"
  by code_simp

section \<open>C4: remappings without slash endings\<close>

text \<open>Scenario 2: \<^verbatim>\<open>create\<close> fails with exactly one error.\<close>

lemma scenario2_single_error:
  "errorsOf (create slashEnv ''/p'') =
     Some [\<lparr>ure_type = ILLEGAL_REMAPPING_WIHTOUT_SLASH_ENDINGS, ure_remapping = ''foo/=bar'',
            ure_source = ''/p/lib/submodule/remappings.txt''\<rparr>]"
  by code_simp

text \<open>
  C4. A line of a \<^verbatim>\<open>remappings.txt\<close> of a queued package whose prefix, target or
  non-empty context does not end in a slash: \<^verbatim>\<open>#resolveAnyRemainingRemappings\<close>
  returns, and its errors contain one for that line whose \<^verbatim>\<open>remapping\<close> is the trimmed
  line and whose \<^verbatim>\<open>source\<close> is the path of the file. Its discriminant is the string
  \<^verbatim>\<open>ILLEGAL_REMAPPING_WIHTOUT_SLASH_ENDINGS\<close>, as the enumeration spells it, which is
  not \<^verbatim>\<open>ILLEGAL_REMAPPING_WITHOUT_SLASH_ENDINGS\<close>.
\<close>

theorem C4_slash_endings_error:
  assumes "parseRemappingString line = Some rm"
    and "(length (rm_context rm) > 0 \<and> \<not> endsWith (rm_context rm) ''/'') \<or>
         \<not> endsWith (rm_prefix rm) ''/'' \<or> \<not> endsWith (rm_target rm) ''/''"
    and "src \<in> set (remappingsTxtFiles env p)"
    and "readUtf8File env src = Some contents"
    and "line \<in> set (rawUserRemappings contents)"
    and "readableFs env" and "queueInstalled m" and "p \<in> set (remappingsToResolve m)"
  shows "\<exists>errors m' err.
      resolveAnyRemainingRemappings env m = Some (Inr errors, m') \<and> err \<in> set errors \<and>
      ure_remapping err = line \<and> ure_source err = src \<and>
      UserRemappingErrorType_value (ure_type err) = ''ILLEGAL_REMAPPING_WIHTOUT_SLASH_ENDINGS'' \<and>
      UserRemappingErrorType_value (ure_type err) \<noteq> ''ILLEGAL_REMAPPING_WITHOUT_SLASH_ENDINGS''"
proof -
  let ?err = "userRemappingError ILLEGAL_REMAPPING_WIHTOUT_SLASH_ENDINGS line src"
  from assms(2) have "withoutSlashEndings rm"
    by (simp add: withoutSlashEndings_def)
  with assms(1) have "\<forall>m result m'.
      validateAndResolveUserRemapping env p src line m = (Inr result, m')
      \<longrightarrow> result = Some ?err"
    by (rule slash_rejected)
  from run_reports [OF this assms(3-8), where errors = "[]"] obtain errors m' where
    "resolveAnyRemainingRemappings env m = Some (Inr errors, m')" "?err \<in> set errors"
    unfolding resolveAnyRemainingRemappings_def by blast
  moreover have "ure_remapping ?err = line" "ure_source ?err = src"
    "UserRemappingErrorType_value (ure_type ?err) = ''ILLEGAL_REMAPPING_WIHTOUT_SLASH_ENDINGS''"
    by (simp_all add: userRemappingError_def)
  ultimately show ?thesis by fastforce
qed

text \<open>Scenario 2, at the start of \<^verbatim>\<open>create\<close>.\<close>

theorem C4_slash_endings_error_witness:
  "\<exists>errors m' err.
      resolveAnyRemainingRemappings slashEnv (newRemappedNpmPackagesMap demoProject) =
        Some (Inr errors, m') \<and> err \<in> set errors \<and>
      ure_remapping err = ''foo/=bar'' \<and> ure_source err = ''/p/lib/submodule/remappings.txt'' \<and>
      UserRemappingErrorType_value (ure_type err) = ''ILLEGAL_REMAPPING_WIHTOUT_SLASH_ENDINGS'' \<and>
      UserRemappingErrorType_value (ure_type err) \<noteq> ''ILLEGAL_REMAPPING_WITHOUT_SLASH_ENDINGS''"
proof -
  have parse: "parseRemappingString ''foo/=bar'' =
      Some \<lparr>rm_context = [], rm_prefix = ''foo/'', rm_target = ''bar''\<rparr>"
    by code_simp
  have slashes: "(length (rm_context \<lparr>rm_context = [], rm_prefix = ''foo/'', rm_target = ''bar''\<rparr>) > 0 \<and>
       \<not> endsWith (rm_context \<lparr>rm_context = [], rm_prefix = ''foo/'', rm_target = ''bar''\<rparr>) ''/'') \<or>
      \<not> endsWith (rm_prefix \<lparr>rm_context = [], rm_prefix = ''foo/'', rm_target = ''bar''\<rparr>) ''/'' \<or>
      \<not> endsWith (rm_target \<lparr>rm_context = [], rm_prefix = ''foo/'', rm_target = ''bar''\<rparr>) ''/''"
    by code_simp
  have listed: "''/p/lib/submodule/remappings.txt'' \<in> set (remappingsTxtFiles slashEnv demoProject)"
    by code_simp
  have contents: "readUtf8File slashEnv ''/p/lib/submodule/remappings.txt'' =
      Some (''foo/=bar'' @ [CHR 0x0A])"
    by (simp add: slashEnv_def remappingsEnv_def)
  have line: "''foo/=bar'' \<in> set (rawUserRemappings (''foo/=bar'' @ [CHR 0x0A]))"
    by code_simp
  have readable: "readableFs slashEnv"
    unfolding slashEnv_def by (rule readableFs_remappingsEnv)
  have queued: "demoProject \<in> set (remappingsToResolve (newRemappedNpmPackagesMap demoProject))"
    by (simp add: queue_new)
  show ?thesis
    using C4_slash_endings_error
      [OF parse slashes listed contents line readable queueInstalled_new queued]
    by simp
qed

section \<open>C5: remappings into \<^verbatim>\<open>node_modules\<close> with a malformed name\<close>

lemma pushUserRemapping_changes:
  assumes "userRemappingsPerPackage m p = Some rems"
  shows "pushUserRemapping p rems r m' \<noteq> m"
proof
  assume "pushUserRemapping p rems r m' = m"
  then have "userRemappingsPerPackage (pushUserRemapping p rems r m') p =
      userRemappingsPerPackage m p"
    by simp
  with assms show False by (simp add: pushUserRemapping_def)
qed

lemma same_prefix_dropped:
  assumes "parseRemappingString line = Some rm" and "\<not> withoutSlashEndings rm"
    and "startsWith (rm_target rm) ''node_modules/''"
    and "installationMap m p \<noteq> None" and "userRemappingsPerPackage m p \<noteq> None"
  shows "(validateAndResolveUserRemapping env p src line m = (Inr None, m)) =
         (rm_prefix rm = strippedTarget rm)"
proof (cases "rm_prefix rm = strippedTarget rm")
  case True
  with assms show ?thesis
    by (auto simp: validateAndResolveUserRemapping_def)
next
  case False
  from assms(5) obtain rems where rems: "userRemappingsPerPackage m p = Some rems" by blast
  from assms(4) obtain deps where deps: "installationMap m p = Some deps" by blast
  have "validateAndResolveUserRemapping env p src line m \<noteq> (Inr None, m)"
  proof (cases "getNpmPackageName (strippedTarget rm)")
    case None
    with assms False rems deps show ?thesis
      by (simp add: validateAndResolveUserRemapping_def)
  next
    case (Some instName)
    obtain r1 m1 where
      internal: "resolveDependencyByInstallationName_internal env p instName m = (r1, m1)"
      by (cases "resolveDependencyByInstallationName_internal env p instName m")
    show ?thesis
    proof (cases r1)
      case (Inl e)
      with assms False rems deps Some internal show ?thesis
        by (simp add: validateAndResolveUserRemapping_def)
    next
      case (Inr found)
      show ?thesis
      proof (cases found)
        case None
        with assms False rems deps Some internal Inr show ?thesis
          by (simp add: validateAndResolveUserRemapping_def)
      next
        case (Some dependency)
        with assms False rems deps \<open>getNpmPackageName (strippedTarget rm) = Some instName\<close>
          internal Inr pushUserRemapping_changes [OF rems]
        show ?thesis
          by (simp add: validateAndResolveUserRemapping_def)
      qed
    qed
  qed
  with False show ?thesis by simp
qed

text \<open>
  C5 (amended). A line that parses, passes the slash-ending check and whose target begins
  with \<^verbatim>\<open>node_modules/\<close>, validated for a package that the map holds:
  \<^verbatim>\<open>#validateAndResolveUserRemapping\<close> drops it silently (no error, the map
  unchanged) exactly when the prefix equals the target with \<^verbatim>\<open>node_modules/\<close>
  stripped, whether or not that text fits the grammar of npm module names. When the
  prefix is different and the stripped target does not fit the grammar, the run of the
  queue returns and its errors contain \<^verbatim>\<open>REMAPPING_WITH_INVALID_SYNTAX\<close> for the line
  and its file.
\<close>

theorem C5_npm_target_syntax:
  assumes "parseRemappingString line = Some rm" and "\<not> withoutSlashEndings rm"
    and "startsWith (rm_target rm) ''node_modules/''"
    and "installationMap m0 p \<noteq> None" and "userRemappingsPerPackage m0 p \<noteq> None"
    and "src \<in> set (remappingsTxtFiles env p)"
    and "readUtf8File env src = Some contents"
    and "line \<in> set (rawUserRemappings contents)"
    and "readableFs env" and "queueInstalled m" and "p \<in> set (remappingsToResolve m)"
  shows "(validateAndResolveUserRemapping env p src line m0 = (Inr None, m0)) =
           (rm_prefix rm = strippedTarget rm) \<and>
         (rm_prefix rm \<noteq> strippedTarget rm \<and> getNpmPackageName (strippedTarget rm) = None \<longrightarrow>
            (\<exists>errors m'.
               resolveAnyRemainingRemappings env m = Some (Inr errors, m') \<and>
               userRemappingError REMAPPING_WITH_INVALID_SYNTAX line src \<in> set errors))"
proof (intro conjI impI)
  show "(validateAndResolveUserRemapping env p src line m0 = (Inr None, m0)) =
      (rm_prefix rm = strippedTarget rm)"
    using assms(1-5) by (rule same_prefix_dropped)
next
  assume "rm_prefix rm \<noteq> strippedTarget rm \<and> getNpmPackageName (strippedTarget rm) = None"
  with assms(1-3) have "\<forall>m result m'.
      validateAndResolveUserRemapping env p src line m = (Inr result, m')
      \<longrightarrow> result = Some (userRemappingError REMAPPING_WITH_INVALID_SYNTAX line src)"
    by (simp add: npm_name_rejected)
  from run_reports [OF this assms(6-11), where errors = "[]"]
  show "\<exists>errors m'.
      resolveAnyRemainingRemappings env m = Some (Inr errors, m') \<and>
      userRemappingError REMAPPING_WITH_INVALID_SYNTAX line src \<in> set errors"
    unfolding resolveAnyRemainingRemappings_def .
qed

text \<open>The line \<^verbatim>\<open>foo/=node_modules/Foo/\<close> of the project's \<^verbatim>\<open>remappings.txt\<close>.\<close>

theorem C5_npm_target_syntax_witness:
  "validateAndResolveUserRemapping badNameEnv demoProject ''/p/remappings.txt''
       ''foo/=node_modules/Foo/''
       (startRemappings demoProject (newRemappedNpmPackagesMap demoProject))
     \<noteq> (Inr None, startRemappings demoProject (newRemappedNpmPackagesMap demoProject)) \<and>
   (\<exists>errors m'.
      resolveAnyRemainingRemappings badNameEnv (newRemappedNpmPackagesMap demoProject) =
        Some (Inr errors, m') \<and>
      userRemappingError REMAPPING_WITH_INVALID_SYNTAX ''foo/=node_modules/Foo/''
        ''/p/remappings.txt'' \<in> set errors)"
proof -
  let ?rm = "\<lparr>rm_context = [], rm_prefix = ''foo/'', rm_target = ''node_modules/Foo/''\<rparr>"
  have parse: "parseRemappingString ''foo/=node_modules/Foo/'' = Some ?rm"
    by code_simp
  have slashes: "\<not> withoutSlashEndings ?rm"
    by code_simp
  have npm: "startsWith (rm_target ?rm) ''node_modules/''"
    by code_simp
  have present:
    "installationMap (startRemappings demoProject (newRemappedNpmPackagesMap demoProject))
       demoProject \<noteq> None"
    "userRemappingsPerPackage (startRemappings demoProject (newRemappedNpmPackagesMap demoProject))
       demoProject \<noteq> None"
    by (simp_all add: startRemappings_def newRemappedNpmPackagesMap_def insertNewPackage_def)
  have listed: "''/p/remappings.txt'' \<in> set (remappingsTxtFiles badNameEnv demoProject)"
    by code_simp
  have contents: "readUtf8File badNameEnv ''/p/remappings.txt'' =
      Some (''foo/=node_modules/Foo/'' @ [CHR 0x0A])"
    by (simp add: badNameEnv_def remappingsEnv_def)
  have line: "''foo/=node_modules/Foo/'' \<in>
      set (rawUserRemappings (''foo/=node_modules/Foo/'' @ [CHR 0x0A]))"
    by code_simp
  have readable: "readableFs badNameEnv"
    unfolding badNameEnv_def by (rule readableFs_remappingsEnv)
  have queued: "demoProject \<in> set (remappingsToResolve (newRemappedNpmPackagesMap demoProject))"
    by (simp add: queue_new)
  have other: "rm_prefix ?rm \<noteq> strippedTarget ?rm"
    by code_simp
  have name: "getNpmPackageName (strippedTarget ?rm) = None"
    by code_simp
  show ?thesis
    using C5_npm_target_syntax
      [OF parse slashes npm present listed contents line readable queueInstalled_new queued]
      other name
    by simp
qed

text \<open>
  C5, as stated, fails on the line \<^verbatim>\<open>Foo/=node_modules/Foo/\<close>: it parses, its prefix
  and target end in a slash, the target begins with \<^verbatim>\<open>node_modules/\<close>, and the
  remainder \<^verbatim>\<open>Foo/\<close> does not fit the grammar of npm module names; yet
  \<^verbatim>\<open>create\<close> succeeds, reporting no error and storing no remapping.
\<close>

theorem C5_counterexample:
  "parseRemappingString ''Foo/=node_modules/Foo/'' =
     Some \<lparr>rm_context = [], rm_prefix = ''Foo/'', rm_target = ''node_modules/Foo/''\<rparr> \<and>
   endsWith ''Foo/'' ''/'' \<and> endsWith ''node_modules/Foo/'' ''/'' \<and>
   startsWith ''node_modules/Foo/'' ''node_modules/'' \<and>
   substring ''node_modules/Foo/'' (length ''node_modules/'') = ''Foo/'' \<and>
   getNpmPackageName ''Foo/'' = None \<and>
   rawUserRemappings (''Foo/=node_modules/Foo/'' @ [CHR 0x0A]) = [''Foo/=node_modules/Foo/''] \<and>
   errorsOf (create samePrefixEnv ''/p'') = None \<and>
   projectRemappingsOf (create samePrefixEnv ''/p'') = Some []"
  by code_simp

text \<open>With the prefix \<^verbatim>\<open>foo/\<close> instead, \<^verbatim>\<open>create\<close> fails with exactly one error.\<close>

lemma badName_single_error:
  "errorsOf (create badNameEnv ''/p'') =
     Some [\<lparr>ure_type = REMAPPING_WITH_INVALID_SYNTAX,
            ure_remapping = ''foo/=node_modules/Foo/'',
            ure_source = ''/p/remappings.txt''\<rparr>]"
  by code_simp

section \<open>C6: relative imports and the root of the package\<close>

lemma resolveImport_relative_never_resolves:
  assumes "isRelative importPath"
  shows "resolveImport env from importPath s \<noteq> Some (Inr (ImportResult (Success v)), s')"
  using assms
  by (auto simp: resolveImport_def resolveRelativeImport_def Let_def
      split: sum.splits option.splits if_splits)

text \<open>The check of \<^verbatim>\<open>#resolveImport\<close> is a test of prefixes of strings: a relative
  import without backslash whose direct import does not start with the root source name
  of the package of \<open>from\<close> is answered with \<open>ILLEGAL_RELATIVE_IMPORT\<close>.\<close>

lemma illegal_relative_import:
  assumes "\<not> js_includes importPath [CHR 0x5C]" and "isRelative importPath"
    and "\<not> startsWith (directImportOf from importPath) (rootSourceName (file_package from))"
  shows "resolveImport env from importPath s =
           Some (Inr (ImportResult (Failure
             (ILLEGAL_RELATIVE_IMPORT (fsPath from) importPath))), s)"
  using assms by (simp add: resolveImport_def)

text \<open>
  C6. The claim expects \<open>ILLEGAL_RELATIVE_IMPORT\<close> whenever the direct import of a
  relative import does not lie under the root source name of the package of \<open>from\<close>.
  The code tests \<^verbatim>\<open>directImport.startsWith(from.package.rootSourceName)\<close>, without a
  separator. So a direct import that is neither the root source name nor under it
  followed by a slash, but begins with the same characters (a sibling such as
  \<^verbatim>\<open>project2/x.sol\<close> for the root \<^verbatim>\<open>project\<close>), passes the check:
  \<^verbatim>\<open>resolveImport\<close> never answers it with \<open>ILLEGAL_RELATIVE_IMPORT\<close>, and when no user
  remapping matches it returns what \<^verbatim>\<open>#resolveRelativeImport\<close> returns, the number 1,
  leaving the resolver as it was.
\<close>

theorem C6_sibling_of_root_passes_check:
  assumes "\<not> js_includes importPath [CHR 0x5C]" and "isRelative importPath"
    and "startsWith (directImportOf from importPath) (rootSourceName (file_package from))"
    and "directImportOf from importPath \<noteq> rootSourceName (file_package from)"
    and "\<not> startsWith (directImportOf from importPath)
           (rootSourceName (file_package from) @ ''/'')"
  shows "(\<forall>a b s'. resolveImport env from importPath s \<noteq>
            Some (Inr (ImportResult (Failure (ILLEGAL_RELATIVE_IMPORT a b))), s')) \<and>
         (getUserRemappings (npmPackageMap s) (file_package from) = Inr remappings \<and>
          selectBestRemapping (sourceName from) (directImportOf from importPath) remappings =
            None
          \<longrightarrow> resolveImport env from importPath s = Some (Inr (NotAResult 1), s))"
proof (intro conjI allI impI)
  fix a b s'
  show "resolveImport env from importPath s \<noteq>
      Some (Inr (ImportResult (Failure (ILLEGAL_RELATIVE_IMPORT a b))), s')"
    using assms(1-3)
    by (auto simp: resolveImport_def resolveRelativeImport_def Let_def
        split: sum.splits option.splits)
next
  assume "getUserRemappings (npmPackageMap s) (file_package from) = Inr remappings \<and>
    selectBestRemapping (sourceName from) (directImportOf from importPath) remappings = None"
  with assms(1-3) show "resolveImport env from importPath s = Some (Inr (NotAResult 1), s)"
    by (simp add: resolveImport_def resolveRelativeImport_def)
qed

lemma fileA_import_sibling:
  "\<not> js_includes ''../../project2/x.sol'' [CHR 0x5C]"
  "isRelative ''../../project2/x.sol''"
  "startsWith (directImportOf fileA ''../../project2/x.sol'')
     (rootSourceName (file_package fileA))"
  "directImportOf fileA ''../../project2/x.sol'' \<noteq> rootSourceName (file_package fileA)"
  "\<not> startsWith (directImportOf fileA ''../../project2/x.sol'')
      (rootSourceName (file_package fileA) @ ''/'')"
  "directImportOf fileA ''../../project2/x.sol'' = ''project2/x.sol''"
  "rootSourceName (file_package fileA) = ''project''"
  "getUserRemappings (npmPackageMap (newResolver ''/p'' plainMap)) (file_package fileA) = Inr []"
  "selectBestRemapping (sourceName fileA) (directImportOf fileA ''../../project2/x.sol'') [] =
     None"
  by code_simp+

text \<open>From \<^verbatim>\<open>project/contracts/A.sol\<close>, the import \<^verbatim>\<open>../../project2/x.sol\<close> has the direct
  import \<^verbatim>\<open>project2/x.sol\<close>, outside the package \<^verbatim>\<open>project\<close>.\<close>

theorem C6_sibling_of_root_passes_check_witness:
  "directImportOf fileA ''../../project2/x.sol'' = ''project2/x.sol'' \<and>
   rootSourceName (file_package fileA) = ''project'' \<and>
   resolveImport plainEnv fileA ''../../project2/x.sol'' (newResolver ''/p'' plainMap) =
     Some (Inr (NotAResult 1), newResolver ''/p'' plainMap) \<and>
   resolveImport plainEnv fileA ''../../project2/x.sol'' (newResolver ''/p'' plainMap) \<noteq>
     Some (Inr (ImportResult (Failure
       (ILLEGAL_RELATIVE_IMPORT ''/p/contracts/A.sol'' ''../../project2/x.sol''))),
       newResolver ''/p'' plainMap)"
proof -
  note sibling = C6_sibling_of_root_passes_check
    [OF fileA_import_sibling(1-5), of plainEnv "newResolver ''/p'' plainMap" "[]"]
  from sibling fileA_import_sibling(8,9) have
    "resolveImport plainEnv fileA ''../../project2/x.sol'' (newResolver ''/p'' plainMap) =
       Some (Inr (NotAResult 1), newResolver ''/p'' plainMap)"
    by blast
  then show ?thesis
    using fileA_import_sibling(6,7) by simp
qed

text \<open>An import that leaves the package without sharing the characters of its root,
  such as \<^verbatim>\<open>../../x.sol\<close>, is answered as the claim expects.\<close>

lemma fileA_import_outside:
  "resolveImport plainEnv fileA ''../../x.sol'' (newResolver ''/p'' plainMap) =
     Some (Inr (ImportResult (Failure
       (ILLEGAL_RELATIVE_IMPORT ''/p/contracts/A.sol'' ''../../x.sol''))),
       newResolver ''/p'' plainMap)"
proof -
  have "\<not> js_includes ''../../x.sol'' [CHR 0x5C]" "isRelative ''../../x.sol''"
    "\<not> startsWith (directImportOf fileA ''../../x.sol'') (rootSourceName (file_package fileA))"
    by code_simp+
  then have "resolveImport plainEnv fileA ''../../x.sol'' (newResolver ''/p'' plainMap) =
      Some (Inr (ImportResult (Failure
        (ILLEGAL_RELATIVE_IMPORT (fsPath fileA) ''../../x.sol''))), newResolver ''/p'' plainMap)"
    by (rule illegal_relative_import)
  then show ?thesis by (simp add: fileA_def)
qed

section \<open>Relative imports\<close>

text \<open>
  C7. A relative import that stays inside the package of the importing file and matches
  no user remapping should be resolved to a file of that package. The code does not: for
  every such import, \<^verbatim>\<open>#resolveImport\<close> returns what \<^verbatim>\<open>#resolveRelativeImport\<close>
  returns, the number 1, and leaves the resolver as it was; no file is resolved or
  interned.
\<close>

theorem C7_relative_import_returns_placeholder:
  assumes "\<not> js_includes importPath [CHR 0x5C]"
    and "isRelative importPath"
    and "startsWith (directImportOf from importPath) (rootSourceName (file_package from))"
    and "getUserRemappings (npmPackageMap s) (file_package from) = Inr remappings"
    and "selectBestRemapping (sourceName from) (directImportOf from importPath) remappings = None"
  shows "resolveImport env from importPath s = Some (Inr (NotAResult 1), s)"
  using assms by (simp add: resolveImport_def resolveRelativeImport_def)

lemma fileA_import_B:
  "\<not> js_includes ''./B.sol'' [CHR 0x5C]"
  "isRelative ''./B.sol''"
  "directImportOf fileA ''./B.sol'' = ''project/contracts/B.sol''"
  "startsWith (directImportOf fileA ''./B.sol'') (rootSourceName (file_package fileA))"
  "getUserRemappings (npmPackageMap (newResolver ''/p'' plainMap)) (file_package fileA) = Inr []"
  "selectBestRemapping (sourceName fileA) (directImportOf fileA ''./B.sol'') [] = None"
  by code_simp+

theorem C7_relative_import_returns_placeholder_witness:
  "createResolver plainEnv ''/p'' = Some (Inr (Success (newResolver ''/p'' plainMap))) \<and>
   getFileTrueCase plainEnv ''/p'' ''contracts/B.sol'' = Some ''contracts/B.sol'' \<and>
   directImportOf fileA ''./B.sol'' = ''project/contracts/B.sol'' \<and>
   resolveImport plainEnv fileA ''./B.sol'' (newResolver ''/p'' plainMap) =
     Some (Inr (NotAResult 1), newResolver ''/p'' plainMap)"
proof -
  have exists_B: "getFileTrueCase plainEnv ''/p'' ''contracts/B.sol'' = Some ''contracts/B.sol''"
    by (simp add: plainEnv_def)
  show ?thesis
    using C7_relative_import_returns_placeholder [OF fileA_import_B(1,2,4,5,6), of plainEnv]
      createResolver_plainEnv fileA_import_B(3) exists_B
    by blast
qed

section \<open>The fallback diagnostic for direct imports of local files\<close>

lemma directLocalImportLoop_throws:
  assumes "\<forall>j \<le> k. startsWith ((path_dirname ^^ j) baseDir) (rootFsPath (file_package from))"
    and "exists env (path_join [(path_dirname ^^ k) baseDir, importPath])"
  shows "directLocalImportLoop env from importPath baseDir =
           Some (Inl (Error ''Invalid direct import''))"
  using assms
proof (induction k arbitrary: baseDir)
  case 0
  then show ?case
    by (subst directLocalImportLoop.simps) simp
next
  case (Suc k)
  have here: "startsWith baseDir (rootFsPath (file_package from))"
    using Suc.prems(1) [rule_format, of 0] by simp
  have above: "\<forall>j \<le> k. startsWith ((path_dirname ^^ j) (path_dirname baseDir))
      (rootFsPath (file_package from))"
  proof (intro allI impI)
    fix j assume "j \<le> k"
    then have "startsWith ((path_dirname ^^ Suc j) baseDir) (rootFsPath (file_package from))"
      using Suc.prems(1) by auto
    then show "startsWith ((path_dirname ^^ j) (path_dirname baseDir))
        (rootFsPath (file_package from))"
      by (simp add: funpow_swap1)
  qed
  have found: "exists env (path_join [(path_dirname ^^ k) (path_dirname baseDir), importPath])"
    using Suc.prems(2) by (simp add: funpow_swap1)
  show ?case
    using here Suc.IH [OF above found]
    by (subst directLocalImportLoop.simps) simp
qed

lemma directImport_no_match:
  assumes "\<not> js_includes importPath [CHR 0x5C]"
    and "\<not> isRelative importPath"
    and "getUserRemappings (npmPackageMap s) (file_package from) = Inr remappings"
    and "selectBestRemapping (sourceName from) importPath remappings = None"
  shows "resolveImport env from importPath s =
           resolveDirectImportThroughNpm env from importPath importPath s"
  using assms by (simp add: resolveImport_def directImportOf_def)

text \<open>
  C8. When the npm resolution of a direct import fails with
  \<open>IMPORT_OF_UNINSTALLED_PACKAGE\<close> or \<open>IMPORT_WITH_INVALID_NPM_SYNTAX\<close> and a directory
  between the one of the importing file and the root of its package holds a file at the
  import path, the claim expects an \<open>IMPORT_DOESNT_EXIST\<close> error value. The code throws
  \<^verbatim>\<open>Error("Invalid direct import")\<close> instead: \<^verbatim>\<open>resolveImport\<close> returns no value.
\<close>

theorem C8_direct_local_import_throws:
  assumes "\<not> js_includes importPath [CHR 0x5C]"
    and "\<not> isRelative importPath"
    and "getUserRemappings (npmPackageMap s) (file_package from) = Inr remappings"
    and "selectBestRemapping (sourceName from) importPath remappings = None"
    and "resolveImportThroughNpm env from importPath importPath s =
           Some (Inr (Failure npmError), s')"
    and "uninstalledOrInvalidNpmSyntax npmError"
    and "\<forall>j \<le> k. startsWith ((path_dirname ^^ j) (path_dirname (fsPath from)))
           (rootFsPath (file_package from))"
    and "exists env (path_join [(path_dirname ^^ k) (path_dirname (fsPath from)), importPath])"
  shows "resolveImport env from importPath s =
           Some (Inl (Error ''Invalid direct import''), s')"
  using directImport_no_match [OF assms(1-4)] assms(5,6)
    directLocalImportLoop_throws [OF assms(7,8)]
  by (simp add: resolveDirectImportThroughNpm_def tryToGenerateDirectLocalImportError_def)

text \<open>The two other parts of the claim hold: the fallback never turns the failure into a
  success, and when the climb ends without finding a file the failure of the npm
  resolution is returned as it is.\<close>

lemma fallback_never_succeeds:
  assumes "resolveImportThroughNpm env from importPath directImport s =
             Some (Inr (Failure npmError), s')"
  shows "resolveDirectImportThroughNpm env from importPath directImport s \<noteq>
           Some (Inr (ImportResult (Success v)), s'')"
  using assms
  by (auto simp: resolveDirectImportThroughNpm_def split: option.splits sum.splits)

lemma fallback_returns_npm_failure:
  assumes "resolveImportThroughNpm env from importPath directImport s =
             Some (Inr (Failure npmError), s')"
    and "tryToGenerateDirectLocalImportError env from importPath = Some (Inr None)"
  shows "resolveDirectImportThroughNpm env from importPath directImport s =
           Some (Inr (ImportResult (Failure npmError)), s')"
  using assms by (simp add: resolveDirectImportThroughNpm_def)

lemma fileA_import_local:
  "\<not> js_includes ''contracts/B.sol'' [CHR 0x5C]"
  "\<not> isRelative ''contracts/B.sol''"
  "getUserRemappings (npmPackageMap (newResolver ''/p'' plainMap)) (file_package fileA) = Inr []"
  "selectBestRemapping (sourceName fileA) ''contracts/B.sol'' [] = None"
  "uninstalledOrInvalidNpmSyntax
     (IMPORT_OF_UNINSTALLED_PACKAGE ''/p/contracts/A.sol'' ''contracts/B.sol'' ''contracts'')"
  "\<forall>j \<le> 1. startsWith ((path_dirname ^^ j) (path_dirname (fsPath fileA)))
     (rootFsPath (file_package fileA))"
  "path_join [(path_dirname ^^ 1) (path_dirname (fsPath fileA)), ''contracts/B.sol''] =
     ''/p/contracts/B.sol''"
  by code_simp+

lemma fileA_import_local_npm:
  "resolveImportThroughNpm plainEnv fileA ''contracts/B.sol'' ''contracts/B.sol''
     (newResolver ''/p'' plainMap) =
   Some (Inr (Failure
     (IMPORT_OF_UNINSTALLED_PACKAGE ''/p/contracts/A.sol'' ''contracts/B.sol'' ''contracts'')),
     newResolver ''/p'' plainMap)"
proof -
  have parsed: "parseNpmDirectImport ''contracts/B.sol'' =
      Some \<lparr>ndi_package = ''contracts'', ndi_subpath = ''B.sol''\<rparr>"
    by code_simp
  show ?thesis
    unfolding resolveImportThroughNpm_def parsed
    by (simp add: resolveDependencyByInstallationName_def
        resolveDependencyByInstallationName_internal_def fromNpmPackageOf_def fileA_def
        newResolver_def plainMap_def plainEnv_def setMap_def)
qed

theorem C8_direct_local_import_throws_witness:
  "exists plainEnv ''/p/contracts/B.sol'' \<and>
   resolveImportThroughNpm plainEnv fileA ''contracts/B.sol'' ''contracts/B.sol''
     (newResolver ''/p'' plainMap) =
   Some (Inr (Failure
     (IMPORT_OF_UNINSTALLED_PACKAGE ''/p/contracts/A.sol'' ''contracts/B.sol'' ''contracts'')),
     newResolver ''/p'' plainMap) \<and>
   resolveImport plainEnv fileA ''contracts/B.sol'' (newResolver ''/p'' plainMap) =
     Some (Inl (Error ''Invalid direct import''), newResolver ''/p'' plainMap)"
proof -
  have found: "exists plainEnv ''/p/contracts/B.sol''"
    by (simp add: plainEnv_def)
  have found': "exists plainEnv
      (path_join [(path_dirname ^^ 1) (path_dirname (fsPath fileA)), ''contracts/B.sol''])"
    unfolding fileA_import_local(7) by (rule found)
  show ?thesis
    using C8_direct_local_import_throws
      [OF fileA_import_local(1-4) fileA_import_local_npm fileA_import_local(5,6) found']
      found fileA_import_local_npm
    by simp
qed

section \<open>C9: resolving an import twice\<close>

text \<open>
  C9. A resolver whose package map is one a caller can observe and holds no package
  whose remappings are still to be resolved. If \<^verbatim>\<open>resolveImport\<close> succeeds, then the
  same call in the state it left succeeds again with the same result, the resolver is
  unchanged by it, and the file of the result is a value of the intern table: the very
  object, with its identity, not a copy.
\<close>

theorem C9_idempotent_resolution:
  assumes first: "resolveImport env from importPath s =
      Some (Inr (ImportResult (Success resolved)), s')"
    and reachable: "reachableMap env root (npmPackageMap s)"
    and rest: "remappingsToResolve (npmPackageMap s) = []"
  shows "resolveImport env from importPath s' =
           Some (Inr (ImportResult (Success resolved)), s') \<and>
         ri_file resolved \<in> ran (resolvedFileBySourceName s')"
proof -
  let ?direct = "directImportOf from importPath"
  have interned: "interned (npmPackageMap s)"
    using reachable by (rule reachable_interned)
  from first have plain: "\<not> js_includes importPath [CHR 0x5C]"
    "\<not> (isRelative importPath \<and>
        \<not> startsWith ?direct (rootSourceName (file_package from)))"
    unfolding resolveImport_def Let_def by (auto split: if_splits)
  with first obtain remappings where
    remappings: "getUserRemappings (npmPackageMap s) (file_package from) = Inr remappings"
    unfolding resolveImport_def Let_def by (auto split: sum.splits)
  then have stored: "userRemappingsPerPackage (npmPackageMap s) (file_package from) =
      Some remappings"
    by (auto simp: getUserRemappings_def split: option.splits)
  show ?thesis
  proof (cases "selectBestRemapping (sourceName from) ?direct remappings")
    case (Some best)
    with first plain remappings have
      direct: "\<not> isRelative importPath"
      and run: "resolveUserRemappedImport env from importPath ?direct best s =
        (Inr (Success resolved), s')"
      unfolding resolveImport_def Let_def
      by (auto split: if_splits sum.splits prod.splits)
    note again = userRemapped_again [OF run]
    from again(3) remappings have
      "getUserRemappings (npmPackageMap s') (file_package from) = Inr remappings"
      by simp
    with plain direct Some again(1) have
      "resolveImport env from importPath s' = Some (Inr (ImportResult (Success resolved)), s')"
      unfolding resolveImport_def Let_def by simp
    with again(2) show ?thesis by simp
  next
    case None
    with first plain remappings have
      direct: "\<not> isRelative importPath"
      and run: "resolveDirectImportThroughNpm env from importPath ?direct s =
        Some (Inr (ImportResult (Success resolved)), s')"
      unfolding resolveImport_def Let_def
      by (auto simp: resolveRelativeImport_def split: if_splits)
    note again = throughNpm_again [OF directNpm_success [OF run] interned rest]
    from again(3) [OF stored] have
      "getUserRemappings (npmPackageMap s') (file_package from) = Inr remappings"
      by (simp add: getUserRemappings_def)
    with plain direct None again(1) have
      "resolveImport env from importPath s' = Some (Inr (ImportResult (Success resolved)), s')"
      unfolding resolveImport_def Let_def
      by (simp add: resolveDirectImportThroughNpm_def)
    with again(2) show ?thesis by simp
  qed
qed

text \<open>The import of \<^verbatim>\<open>dep1/src/C.sol\<close> from \<^verbatim>\<open>contracts/A.sol\<close>: the first call loads
  the package \<^verbatim>\<open>dep1\<close> and interns the file, the second call returns that file.\<close>

lemma create_without_remappings:
  assumes "readJsonFile env ''/p/package.json'' = Some demoPackageJson"
    and "remappingsTxtFiles env demoProject = []"
  shows "create env ''/p'' = Some (Inr (Success plainMap))"
proof -
  let ?m = "startRemappings demoProject (newRemappedNpmPackagesMap demoProject)"
  have "validateAndResolveUserRemappingsOfAnExistingPackage env demoProject ?m = (Inr [], ?m)"
    using assms(2)
    by (simp add: validateAndResolveUserRemappingsOfAnExistingPackage_def startRemappings_def)
  moreover have "resolveRemaining env [] (shiftQueue ?m) = Some (Inr [], shiftQueue ?m)"
    by (rule resolveRemaining_empty)
      (simp add: shiftQueue_def startRemappings_def queue_new)
  ultimately have
    "resolveRemaining env [] (newRemappedNpmPackagesMap demoProject) =
       Some (Inr [], shiftQueue ?m)"
    by (subst resolveRemaining.simps) (simp add: queue_new)
  moreover have "shiftQueue ?m = plainMap"
    by (simp add: shiftQueue_def startRemappings_def newRemappedNpmPackagesMap_def
        insertNewPackage_def plainMap_def demoProject_def)
  ultimately show ?thesis
    using assms(1) by (simp add: create_demo resolveAnyRemainingRemappings_def)
qed

lemma depEnv_import:
  "importedFile (resolveImport depEnv fileA ''dep1/src/C.sol'' resolverWithA) =
     Some \<lparr>file_ident = 2, file_type = NPM_PACKAGE_FILE,
           sourceName = ''npm/dep1@1.2.0/src/C.sol'',
           fsPath = ''/p/node_modules/dep1/src/C.sol'',
           content = \<lparr>fc_text = ''contract C {}'', importPaths = [], versionPragmas = []\<rparr>,
           file_package = dep1Package\<rparr>"
  by code_simp

theorem C9_idempotent_resolution_witness:
  "\<exists>resolved s'.
     resolveImport depEnv fileA ''dep1/src/C.sol'' resolverWithA =
       Some (Inr (ImportResult (Success resolved)), s') \<and>
     sourceName (ri_file resolved) = ''npm/dep1@1.2.0/src/C.sol'' \<and>
     file_ident (ri_file resolved) = 2 \<and>
     resolveImport depEnv fileA ''dep1/src/C.sol'' s' =
       Some (Inr (ImportResult (Success resolved)), s') \<and>
     ri_file resolved \<in> ran (resolvedFileBySourceName s')"
proof -
  from depEnv_import obtain resolved s' where
    first: "resolveImport depEnv fileA ''dep1/src/C.sol'' resolverWithA =
      Some (Inr (ImportResult (Success resolved)), s')"
    and named: "sourceName (ri_file resolved) = ''npm/dep1@1.2.0/src/C.sol''"
      "file_ident (ri_file resolved) = 2"
    unfolding importedFile_def
    by (auto split: option.splits sum.splits prod.splits ImportResolution.splits Result.splits)
  have "create depEnv ''/p'' = Some (Inr (Success plainMap))"
    by (rule create_without_remappings)
      (simp_all add: depEnv_def remappingsTxtFiles_def)
  then have "reachableMap depEnv ''/p'' plainMap"
    by (rule reachableMap.created)
  then have reachable: "reachableMap depEnv ''/p'' (npmPackageMap resolverWithA)"
    by (simp add: resolverWithA_def internFile_def newResolver_def)
  have rest: "remappingsToResolve (npmPackageMap resolverWithA) = []"
    by (simp add: resolverWithA_def internFile_def newResolver_def plainMap_def)
  from C9_idempotent_resolution [OF first reachable rest] first named
  show ?thesis by (intro exI [of _ resolved] exI [of _ s']) simp
qed

section \<open>C10: project files requested with the wrong casing\<close>

text \<open>The map that \<^verbatim>\<open>create\<close> builds for the project with the remapping of
  \<^verbatim>\<open>lib/\<close>, and the import of \<^verbatim>\<open>lib/B.sol\<close> from \<^verbatim>\<open>contracts/A.sol\<close>:
  \<^verbatim>\<open>#getRelativeSourceNamePath\<close> returns the whole source name for the project package,
  so the file is looked for, and found, at \<^verbatim>\<open>/p/project/contracts/B.sol\<close>, and interned
  under \<^verbatim>\<open>project/contracts/B.sol\<close>.\<close>

lemma remapEnv_map: "projectRemappingsOf (create remapEnv ''/p'') = Some [libRemapping]"
  by code_simp

lemma remapped_import_facts:
  "\<not> js_includes ''lib/B.sol'' [CHR 0x5C]"
  "\<not> isRelative ''lib/B.sol''"
  "selectBestRemapping (sourceName fileA) ''lib/B.sol'' [libRemapping] = Some libRemapping"
  "applyValidRemapping ''lib/B.sol'' libRemapping = ''project/contracts/B.sol''"
  "path_join [''/p'', ''project/contracts/B.sol''] = ''/p/project/contracts/B.sol''"
  by code_simp+

lemma remapped_import:
  "resolveImport remapEnv fileA ''lib/B.sol'' remapResolver =
     Some (Inr (ImportResult (Success
       \<lparr>ri_file = otherB, ri_remapping = Some (UserRemapping libRemapping)\<rparr>)),
       internFile ''project/contracts/B.sol'' otherB remapResolver)"
proof -
  have stored: "getUserRemappings (npmPackageMap remapResolver) (file_package fileA) =
      Inr [libRemapping]"
    by (simp add: remapResolver_def internFile_def newResolver_def remapMap_def fileA_def
        getUserRemappings_def)
  have direct: "directImportOf fileA ''lib/B.sol'' = ''lib/B.sol''"
    using remapped_import_facts(2) by (simp add: directImportOf_def)
  have table: "resolvedFileBySourceName remapResolver ''project/contracts/B.sol'' = None"
    by (simp add: remapResolver_def internFile_def newResolver_def fileA_def)
  have package: "fromNpmPackageOf remapResolver fileA = demoProject"
    "hardhatProjectPackage (npmPackageMap remapResolver) = demoProject"
    by (simp_all add: fromNpmPackageOf_def remapResolver_def internFile_def newResolver_def
        remapMap_def plainMap_def fileA_def)
  have built: "buildResolvedFile remapEnv remapResolver ''project/contracts/B.sol''
      ''/p/project/contracts/B.sol'' demoProject = Inr otherB"
    by (simp add: buildResolvedFile_def readFileContent_def remapEnv_def otherB_def
        remapResolver_def internFile_def newResolver_def remapMap_def plainMap_def)
  have remapped: "resolveUserRemappedImport remapEnv fileA ''lib/B.sol'' ''lib/B.sol''
      libRemapping remapResolver =
      (Inr (Success \<lparr>ri_file = otherB, ri_remapping = Some (UserRemapping libRemapping)\<rparr>),
       internFile ''project/contracts/B.sol'' otherB remapResolver)"
    unfolding resolveUserRemappedImport_def Let_def remapped_import_facts(4) table
    by (simp add: package getRelativeSourceNamePath_def sourceNamePathToFsPath_def
        libRemapping_def demoProject_def validateFsPath_def remapEnv_def
        remapped_import_facts(5) built [unfolded demoProject_def remapEnv_def])
  show ?thesis
    unfolding resolveImport_def Let_def direct
    using remapped_import_facts(1-3) stored remapped
    by simp
qed


lemma create_remapEnv: "create remapEnv ''/p'' = Some (Inr (Success remapMap))"
proof -
  let ?src = "''/p/remappings.txt''"
  let ?rm = "\<lparr>rm_context = [], rm_prefix = ''lib/'', rm_target = ''contracts/''\<rparr>"
  let ?m0 = "startRemappings demoProject (newRemappedNpmPackagesMap demoProject)"
  let ?m1 = "pushUserRemapping demoProject [] libRemapping ?m0"
  have line: "rawUserRemappings ''lib/=contracts/'' = [''lib/=contracts/'']"
    "parseRemappingString ''lib/=contracts/'' = Some ?rm"
    "\<not> withoutSlashEndings ?rm"
    "\<not> startsWith (rm_target ?rm) ''node_modules/''"
    "localUserRemapping demoProject ?src ''lib/=contracts/'' ?rm = libRemapping"
    "remappingsTxtFiles remapEnv demoProject = [?src]"
    by code_simp+
  have m0: "installationMap ?m0 demoProject = Some Map.empty"
    "userRemappingsPerPackage ?m0 demoProject = Some []"
    by (simp_all add: startRemappings_def newRemappedNpmPackagesMap_def insertNewPackage_def)
  have "validateAndResolveUserRemapping remapEnv demoProject ?src ''lib/=contracts/'' ?m0 =
      (Inr None, ?m1)"
    using validate_local [OF line(2-4) m0, of remapEnv ?src] line(5) by simp
  then have "validateLines remapEnv demoProject ?src (rawUserRemappings ''lib/=contracts/'')
      [] ?m0 = (Inr [], ?m1)"
    by (simp add: line(1))
  moreover have "readUtf8File remapEnv ?src = Some ''lib/=contracts/''"
    by (simp add: remapEnv_def)
  ultimately have
    "validateAndResolveUserRemappingsOfAnExistingPackage remapEnv demoProject ?m0 =
       (Inr [], ?m1)"
    using m0(2) line(6)
    by (simp add: validateAndResolveUserRemappingsOfAnExistingPackage_def)
  moreover have "resolveRemaining remapEnv [] (shiftQueue ?m1) = Some (Inr [], shiftQueue ?m1)"
    by (rule resolveRemaining_empty)
      (simp add: shiftQueue_def pushUserRemapping_def startRemappings_def queue_new)
  ultimately have
    "resolveRemaining remapEnv [] (newRemappedNpmPackagesMap demoProject) =
       Some (Inr [], shiftQueue ?m1)"
    by (subst resolveRemaining.simps) (simp add: queue_new)
  moreover have "shiftQueue ?m1 = remapMap"
    by (simp add: shiftQueue_def pushUserRemapping_def startRemappings_def
        newRemappedNpmPackagesMap_def insertNewPackage_def remapMap_def plainMap_def
        demoProject_def)
  moreover have "readJsonFile remapEnv ''/p/package.json'' = Some demoPackageJson"
    by (simp add: remapEnv_def)
  ultimately show ?thesis
    by (simp add: create_demo resolveAnyRemainingRemappings_def)
qed

text \<open>
  C10. The claim expects that a project file requested with the wrong casing is returned
  with the source name and the path built from the true casing. Let an absolute path
  start with the project root and name, up to casing, a file that exists outside
  \<^verbatim>\<open>node_modules\<close>, and let the first lookup of the intern table miss. The table is
  looked up a second time under the corrected source name before any content is read,
  and when it holds a file there, \<^verbatim>\<open>resolveProjectFile\<close> returns that file as it is,
  whatever its path. A file interned there by \<^verbatim>\<open>resolveImport\<close> through a user
  remapping has another path, so the file returned is not the one requested.
\<close>

theorem C10_interned_file_returned_as_is:
  assumes under: "startsWith absoluteFilePath (projectRoot s)"
    and requested: "relativeFilePath = path_relative (projectRoot s) absoluteFilePath"
    and onDisk: "getFileTrueCase env (projectRoot s) relativeFilePath = Some trueCase"
    and differs: "trueCase \<noteq> relativeFilePath"
    and outside: "\<not> startsWith (projectSourceName s trueCase)
        (sourceNamePathJoin
           [rootSourceName (hardhatProjectPackage (npmPackageMap s)), ''node_modules/''])"
    and miss: "resolvedFileBySourceName s (projectSourceName s relativeFilePath) = None"
    and held: "resolvedFileBySourceName s (projectSourceName s trueCase) = Some existing"
  shows "resolveProjectFile env absoluteFilePath s = (Inr (Success existing), s)"
proof -
  have "resolveProjectFile env absoluteFilePath s =
      resolveProjectFileWithCasing env absoluteFilePath trueCase (projectSourceName s trueCase) s"
    using under miss onDisk differs
    by (simp add: resolveProjectFile_def requested [symmetric] validateFsPath_def Let_def)
  with outside held show ?thesis
    by (simp add: resolveProjectFileWithCasing_def)
qed

text \<open>After the import of \<^verbatim>\<open>lib/B.sol\<close>, the request of \<^verbatim>\<open>/p/contracts/b.sol\<close>, which
  is \<^verbatim>\<open>/p/contracts/B.sol\<close> on disk, returns the file of
  \<^verbatim>\<open>/p/project/contracts/B.sol\<close>.\<close>

theorem C10_interned_file_returned_as_is_witness:
  "resolveImport remapEnv fileA ''lib/B.sol'' remapResolver =
     Some (Inr (ImportResult (Success
       \<lparr>ri_file = otherB, ri_remapping = Some (UserRemapping libRemapping)\<rparr>)),
       internFile ''project/contracts/B.sol'' otherB remapResolver) \<and>
   getFileTrueCase remapEnv ''/p'' ''contracts/b.sol'' = Some ''contracts/B.sol'' \<and>
   resolveProjectFile remapEnv ''/p/contracts/b.sol''
       (internFile ''project/contracts/B.sol'' otherB remapResolver) =
     (Inr (Success otherB), internFile ''project/contracts/B.sol'' otherB remapResolver) \<and>
   fsPath otherB = ''/p/project/contracts/B.sol'' \<and>
   path_join [''/p'', ''contracts/B.sol''] = ''/p/contracts/B.sol''"
proof -
  let ?s = "internFile ''project/contracts/B.sol'' otherB remapResolver"
  have root: "projectRoot ?s = ''/p''"
    and psn: "\<And>r. projectSourceName ?s r = sourceNamePathJoin [''project'', r]"
    and rsn: "rootSourceName (hardhatProjectPackage (npmPackageMap ?s)) = ''project''"
    by (simp_all add: internFile_def remapResolver_def newResolver_def remapMap_def plainMap_def
        demoProject_def projectSourceName_def fsPathToSourceNamePath_def)
  have names:
    "sourceNamePathJoin [''project'', ''contracts/b.sol''] = ''project/contracts/b.sol''"
    "sourceNamePathJoin [''project'', ''contracts/B.sol''] = ''project/contracts/B.sol''"
    "sourceNamePathJoin [''project'', ''node_modules/''] = ''project/node_modules/''"
    "path_join [''/p'', ''contracts/B.sol''] = ''/p/contracts/B.sol''"
    "path_relative ''/p'' ''/p/contracts/b.sol'' = ''contracts/b.sol''"
    by code_simp+
  have table: "resolvedFileBySourceName ?s ''project/contracts/b.sol'' = None"
    "resolvedFileBySourceName ?s ''project/contracts/B.sol'' = Some otherB"
    by (simp_all add: internFile_def remapResolver_def newResolver_def fileA_def)
  have h1: "startsWith ''/p/contracts/b.sol'' (projectRoot ?s)"
    unfolding root by code_simp
  have h2: "''contracts/b.sol'' = path_relative (projectRoot ?s) ''/p/contracts/b.sol''"
    unfolding root names ..
  have trueCase: "getFileTrueCase remapEnv ''/p'' ''contracts/b.sol'' = Some ''contracts/B.sol''"
    by (simp add: remapEnv_def)
  have h3: "getFileTrueCase remapEnv (projectRoot ?s) ''contracts/b.sol'' =
      Some ''contracts/B.sol''"
    unfolding root by (rule trueCase)
  have h4: "''contracts/B.sol'' \<noteq> ''contracts/b.sol''"
    by simp
  have h5: "\<not> startsWith (projectSourceName ?s ''contracts/B.sol'')
      (sourceNamePathJoin
         [rootSourceName (hardhatProjectPackage (npmPackageMap ?s)), ''node_modules/''])"
    unfolding psn rsn names by code_simp
  have h6: "resolvedFileBySourceName ?s (projectSourceName ?s ''contracts/b.sol'') = None"
    unfolding psn names by (rule table)
  have h7: "resolvedFileBySourceName ?s (projectSourceName ?s ''contracts/B.sol'') = Some otherB"
    unfolding psn names by (rule table)
  have "resolveProjectFile remapEnv ''/p/contracts/b.sol'' ?s = (Inr (Success otherB), ?s)"
    using h1 h2 h3 h4 h5 h6 h7 by (rule C10_interned_file_returned_as_is)
  moreover have "fsPath otherB = ''/p/project/contracts/B.sol''"
    by (simp add: otherB_def)
  ultimately show ?thesis
    using remapped_import trueCase names(4) by simp
qed

text \<open>What holds of the claim: when the table holds no file under either name and the
  file can be read, the new file has the source name and the path of the true casing.\<close>

lemma resolveProjectFile_fresh:
  assumes under: "startsWith absoluteFilePath (projectRoot s)"
    and requested: "relativeFilePath = path_relative (projectRoot s) absoluteFilePath"
    and onDisk: "getFileTrueCase env (projectRoot s) relativeFilePath = Some trueCase"
    and differs: "trueCase \<noteq> relativeFilePath"
    and outside: "\<not> startsWith (projectSourceName s trueCase)
        (sourceNamePathJoin
           [rootSourceName (hardhatProjectPackage (npmPackageMap s)), ''node_modules/''])"
    and miss: "resolvedFileBySourceName s (projectSourceName s relativeFilePath) = None"
    and fresh: "resolvedFileBySourceName s (projectSourceName s trueCase) = None"
    and readable: "readUtf8File env (path_join [projectRoot s, trueCase]) = Some fileText"
  shows "\<exists>f s'. resolveProjectFile env absoluteFilePath s = (Inr (Success f), s') \<and>
           sourceName f = projectSourceName s trueCase \<and>
           fsPath f = path_join [projectRoot s, trueCase] \<and>
           resolvedFileBySourceName s' (projectSourceName s trueCase) = Some f"
proof -
  have "resolveProjectFile env absoluteFilePath s =
      resolveProjectFileWithCasing env absoluteFilePath trueCase (projectSourceName s trueCase) s"
    using under miss onDisk differs
    by (simp add: resolveProjectFile_def requested [symmetric] validateFsPath_def Let_def)
  with outside fresh readable show ?thesis
    by (simp add: resolveProjectFileWithCasing_def readFileContent_def Let_def
        split: prod.splits)
qed

text \<open>The test of the project root compares the characters: a path that names the root
  with another casing is answered with \<open>PROJECT_ROOT_FILE_NOT_IN_PROJECT\<close>.\<close>

lemma root_with_other_casing:
  assumes "\<not> startsWith absoluteFilePath (projectRoot s)"
  shows "resolveProjectFile env absoluteFilePath s =
           (Inr (Failure (PROJECT_ROOT_FILE_NOT_IN_PROJECT absoluteFilePath)), s)"
  using assms by (simp add: resolveProjectFile_def)

lemma upper_case_root:
  "fst (resolveProjectFile remapEnv ''/P/contracts/A.sol'' remapResolver) =
     Inr (Failure (PROJECT_ROOT_FILE_NOT_IN_PROJECT ''/P/contracts/A.sol''))"
  by code_simp

text \<open>The first request of \<^verbatim>\<open>/p/contracts/a.sol\<close> on a fresh resolver.\<close>

lemma resolveProjectFile_wrong_casing_first:
  "resolveProjectFile caseEnv ''/p/contracts/a.sol'' (newResolver ''/p'' plainMap) =
     (Inr (Success fileA),
      internFile ''project/contracts/A.sol'' fileA (newResolver ''/p'' plainMap))"
proof -
  have rel: "path_relative ''/p'' ''/p/contracts/a.sol'' = ''contracts/a.sol''"
    by code_simp
  have names: "sourceNamePathJoin [''project'', ''contracts/a.sol''] = ''project/contracts/a.sol''"
    "sourceNamePathJoin [''project'', ''contracts/A.sol''] = ''project/contracts/A.sol''"
    "sourceNamePathJoin [''project'', ''node_modules/''] = ''project/node_modules/''"
    "path_join [''/p'', ''contracts/A.sol''] = ''/p/contracts/A.sol''"
    by code_simp+
  show ?thesis
    by (simp add: resolveProjectFile_def resolveProjectFileWithCasing_def newResolver_def
        plainMap_def demoProject_def rel names projectSourceName_def fsPathToSourceNamePath_def
        validateFsPath_def caseEnv_def plainEnv_def readFileContent_def startsWith_def
        internFile_def fileA_def Let_def)
qed

end
